theory Spec2Isabelle
  imports Main
begin

section \<open>JavaScript values and objects\<close>

text \<open>
  A string is a list of characters; a character stands for one code unit in the range
  U+0000..U+00FF.  The values the extraction service returns are typed
  \<^verbatim>\<open>string | number | null\<close> (\<^verbatim>\<open>src/types.ts\<close>); a number is modelled by an
  integer \<open>n\<close> with \<open>\<bar>n\<bar> < 10^21\<close>, the numbers that \<^verbatim>\<open>String(n)\<close> prints as plain
  digits; fractions and larger magnitudes are outside the model.
\<close>

datatype jsval = JNull | JStr string | JNum int

text \<open>
  What reading a property of an object created by a literal or by \<^verbatim>\<open>JSON.parse\<close>
  gives: \<^verbatim>\<open>undefined\<close>, the value of an own property, or a member that the object
  inherits from \<^verbatim>\<open>Object.prototype\<close> (for a name such as \<^verbatim>\<open>constructor\<close>).
\<close>

datatype property = Undefined | Own jsval | Inherited string

text \<open>The one error the code of the repository can raise by itself: reading a property
  of \<^verbatim>\<open>null\<close> or \<^verbatim>\<open>undefined\<close>.\<close>

datatype jsError = TypeError

text \<open>\<^verbatim>\<open>ToBoolean\<close>: undefined, null, the empty string and zero are falsy; the
  inherited members are functions and an object.\<close>

fun truthy :: "property \<Rightarrow> bool" where
  "truthy Undefined = False"
| "truthy (Own JNull) = False"
| "truthy (Own (JStr s)) = (s \<noteq> [])"
| "truthy (Own (JNum n)) = (n \<noteq> 0)"
| "truthy (Inherited k) = True"

fun digitsOf :: "nat \<Rightarrow> string" where
  "digitsOf n = (if n < 10 then [char_of (48 + n)]
                 else digitsOf (n div 10) @ [char_of (48 + n mod 10)])"

declare digitsOf.simps [simp del]

text \<open>\<^verbatim>\<open>String(v)\<close>.  The text of a built-in function is the engine's; it is written
  here as V8 prints it, and no theorem below depends on it.\<close>

fun String :: "property \<Rightarrow> string" where
  "String Undefined = ''undefined''"
| "String (Own JNull) = ''null''"
| "String (Own (JStr s)) = s"
| "String (Own (JNum n)) = (if n < 0 then CHR ''-'' # digitsOf (nat (- n)) else digitsOf (nat n))"
| "String (Inherited k) =
     (if k = ''__proto__'' then ''[object Object]''
      else if k = ''constructor'' then ''function Object() { [native code] }''
      else ''function '' @ k @ ''() { [native code] }'')"

text \<open>
  An object is the list of its own properties in the order \<^verbatim>\<open>Object.keys\<close>,
  \<^verbatim>\<open>Object.entries\<close> and the spread operator enumerate them: the keys that are array
  indices first, in ascending numeric order, then the other keys in the order they were
  created.  An array index is the canonical decimal form of an integer below
  \<open>2^32 - 1\<close>.
\<close>

type_synonym 'v jsobject = "(string \<times> 'v) list"

definition isDigit :: "char \<Rightarrow> bool" where
  "isDigit c = ((48::nat) \<le> of_char c \<and> of_char c \<le> (57::nat))"

definition numberOf :: "string \<Rightarrow> nat" where
  "numberOf s = foldl (\<lambda>n c. 10 * n + (of_char c - (48::nat))) 0 s"

definition isArrayIndex :: "string \<Rightarrow> bool" where
  "isArrayIndex k = (k \<noteq> [] \<and> list_all isDigit k \<and> (k = ''0'' \<or> hd k \<noteq> CHR ''0'')
                      \<and> numberOf k < 4294967295)"

text \<open>The own property of a name, and the names \<^verbatim>\<open>Object.prototype\<close> defines.\<close>

definition getProp :: "'v jsobject \<Rightarrow> string \<Rightarrow> 'v option" where
  "getProp ob k = map_of ob k"

definition inherited :: "string \<Rightarrow> bool" where
  "inherited k = (k \<in> {''constructor'', ''__proto__'', ''hasOwnProperty'', ''isPrototypeOf'',
     ''propertyIsEnumerable'', ''toLocaleString'', ''toString'', ''valueOf'',
     ''__defineGetter__'', ''__defineSetter__'', ''__lookupGetter__'', ''__lookupSetter__''})"

text \<open>\<^verbatim>\<open>ob[k]\<close> on an object of values.\<close>

definition readProp :: "jsval jsobject \<Rightarrow> string \<Rightarrow> property" where
  "readProp ob k =
     (case getProp ob k of
        Some v \<Rightarrow> Own v
      | None \<Rightarrow> if inherited k then Inherited k else Undefined)"

text \<open>Creating an array-index key puts it before the first larger index and before every
  other key.\<close>

fun insertIndex :: "string \<Rightarrow> 'v \<Rightarrow> 'v jsobject \<Rightarrow> 'v jsobject" where
  "insertIndex k v [] = [(k, v)]"
| "insertIndex k v ((k', v') # rest) =
     (if isArrayIndex k' \<and> numberOf k' < numberOf k then (k', v') # insertIndex k v rest
      else (k, v) # (k', v') # rest)"

fun replaceProp :: "string \<Rightarrow> 'v \<Rightarrow> 'v jsobject \<Rightarrow> 'v jsobject" where
  "replaceProp k v [] = []"
| "replaceProp k v ((k', v') # rest) =
     (if k' = k then (k, v) # rest else (k', v') # replaceProp k v rest)"

text \<open>\<^verbatim>\<open>ob[k] = v\<close> on an own data property, and the definition of a property by an
  object literal or a spread.\<close>

definition setProp :: "'v jsobject \<Rightarrow> string \<Rightarrow> 'v \<Rightarrow> 'v jsobject" where
  "setProp ob k v =
     (if k \<in> fst ` set ob then replaceProp k v ob
      else if isArrayIndex k then insertIndex k v ob
      else ob @ [(k, v)])"

text \<open>\<^verbatim>\<open>{...a, ...b}\<close>: the properties of \<open>b\<close> are defined on \<open>a\<close> one by one, in
  \<open>b\<close>'s order.\<close>

definition spread :: "'v jsobject \<Rightarrow> 'v jsobject \<Rightarrow> 'v jsobject" where
  "spread a b = foldl (\<lambda>ob (k, v). setProp ob k v) a b"

section \<open>The data model (\<^verbatim>\<open>src/types.ts\<close>)\<close>

datatype itemStatus = Pending | Processing | Success | Error

text \<open>\<^verbatim>\<open>error\<close> is declared a string; it holds whatever line 132 of \<^verbatim>\<open>src/App.tsx\<close>
  stores, the message of what was thrown, which a cast lets through unchecked.\<close>

record ExtractedData =
  id' :: string
  fileName :: string
  status :: itemStatus
  data :: "jsval jsobject option"
  error :: "jsval option"

datatype ProcessingStatus = Idle | Extracting | Completed

datatype tab = TabAll | TabSelected

text \<open>A browser \<^verbatim>\<open>File\<close>: the application reads its name; the content goes to the
  extraction service.\<close>

record File =
  name :: string
  content :: "nat list"

text \<open>The React state of \<^verbatim>\<open>App\<close> (\<^verbatim>\<open>src/App.tsx\<close>, lines 15-20); \<open>status'\<close> and
  \<open>fields'\<close> are the state variables \<^verbatim>\<open>status\<close> and \<^verbatim>\<open>fields\<close>.\<close>

record App =
  files :: "File list"
  fields' :: "string list"
  results :: "ExtractedData list"
  status' :: ProcessingStatus
  selectedIds :: "string set"
  activeTab :: tab

section \<open>The extraction orchestrator (\<^verbatim>\<open>startExtraction\<close>)\<close>

text \<open>
  The two effects of the orchestrator are parameters that thread a world \<open>'w\<close>:
  \<^verbatim>\<open>generateId\<close> (a random identifier) and \<^verbatim>\<open>extractDataFromPdf\<close>, which returns the
  record of a document or throws.  What is thrown is \<^verbatim>\<open>null\<close> or \<^verbatim>\<open>undefined\<close>, or
  any other value, given by what reading its property \<^verbatim>\<open>message\<close> yields (\<open>None\<close>
  when the value has none).
\<close>

datatype thrown = ThrownNullish | Thrown "jsval option"

type_synonym 'w generateId = "'w \<Rightarrow> string \<times> 'w"

type_synonym 'w extractDataFromPdf =
  "File \<Rightarrow> string list \<Rightarrow> 'w \<Rightarrow> (thrown + jsval jsobject) \<times> 'w"

text \<open>\<^verbatim>\<open>files.map(file => ({id: generateId(), fileName: file.name, status: 'pending'}))\<close>\<close>

fun initialResults :: "'w generateId \<Rightarrow> File list \<Rightarrow> 'w \<Rightarrow> ExtractedData list \<times> 'w" where
  "initialResults gen [] w = ([], w)"
| "initialResults gen (f # fs) w =
     (case gen w of (i, w1) \<Rightarrow>
        (case initialResults gen fs w1 of (rest, w2) \<Rightarrow>
           (\<lparr>id' = i, fileName = name f, status = Pending, data = None, error = None\<rparr> # rest, w2)))"

text \<open>\<^verbatim>\<open>message || 'Extraction failed'\<close> for the message of a value that has properties.\<close>

definition errorMessage :: "jsval option \<Rightarrow> jsval" where
  "errorMessage m = (case m of
       None \<Rightarrow> JStr ''Extraction failed''
     | Some v \<Rightarrow> if truthy (Own v) then v else JStr ''Extraction failed'')"

text \<open>
  The two branches of the \<^verbatim>\<open>try\<close>/\<^verbatim>\<open>catch\<close> (lines 121-134).  The catch block reads
  \<^verbatim>\<open>(error as Error).message\<close> unguarded: when \<^verbatim>\<open>null\<close> or \<^verbatim>\<open>undefined\<close> was thrown,
  the read throws a \<^verbatim>\<open>TypeError\<close> inside the block and no item is written.
\<close>

definition commit :: "ExtractedData \<Rightarrow> thrown + jsval jsobject \<Rightarrow> jsError + ExtractedData" where
  "commit it r = (case r of
       Inr d \<Rightarrow> Inr (it\<lparr>status := Success, data := Some d\<rparr>)
     | Inl ThrownNullish \<Rightarrow> Inl TypeError
     | Inl (Thrown m) \<Rightarrow> Inr (it\<lparr>status := Error, error := Some (errorMessage m)\<rparr>))"

text \<open>
  \<^verbatim>\<open>startExtraction\<close> is an async function: it runs until it awaits the extraction of
  one document, and is resumed when that call settles.  A suspended run keeps the
  \<^verbatim>\<open>files\<close> and \<^verbatim>\<open>fields\<close> of the render it was started from, its private array
  \<^verbatim>\<open>updatedResults\<close> and its index.  Between two awaits nothing else runs.  The
  promise of the function is fulfilled when the loop is over, and rejected when an error
  escapes the catch block; nothing in the application handles that rejection.
\<close>

record Run =
  runFiles :: "File list"
  runFields :: "string list"
  updatedResults :: "ExtractedData list"
  resultIndex :: nat

datatype promise = Fulfilled | Rejected jsError

datatype progress = Suspended Run | Settled promise

text \<open>
  The head of the \<^verbatim>\<open>for\<close> loop (lines 113-122): either the next item is marked
  \<^verbatim>\<open>processing\<close>, the copy is published and the run suspends in the call, or the loop is
  over and the status becomes \<^verbatim>\<open>completed\<close>.  \<^verbatim>\<open>updatedResults\<close> is as long as
  \<^verbatim>\<open>files\<close> (lemma \<open>initialResults_length\<close>), so the index is in range under the guard.
\<close>

definition loopHead :: "Run \<Rightarrow> App \<Rightarrow> App \<times> progress" where
  "loopHead r s =
     (if resultIndex r < length (runFiles r) then
        (let us = (updatedResults r)
                    [resultIndex r := (updatedResults r ! resultIndex r)\<lparr>status := Processing\<rparr>]
         in (s\<lparr>results := us\<rparr>, Suspended (r\<lparr>updatedResults := us\<rparr>)))
      else (s\<lparr>status' := Completed\<rparr>, Settled Fulfilled))"

text \<open>Lines 88-119: the guard, the initial items, the default selection, and the first
  pass through the loop head.\<close>

definition startExtraction_begin ::
  "'w generateId \<Rightarrow> App \<Rightarrow> 'w \<Rightarrow> (App \<times> progress) \<times> 'w" where
  "startExtraction_begin gen s w =
     (if files s = [] \<or> fields' s = [] then ((s, Settled Fulfilled), w)
      else (case initialResults gen (files s) w of (ini, w1) \<Rightarrow>
        (loopHead \<lparr>runFiles = files s, runFields = fields' s, updatedResults = ini, resultIndex = 0\<rparr>
           (s\<lparr>status' := Extracting, activeTab := TabAll, results := ini,
              selectedIds := (if ini \<noteq> [] then {id' (hd ini)} else {})\<rparr>),
         w1)))"

text \<open>Lines 122-137: the call has settled with \<open>out\<close>; the item is committed, the copy is
  published, and the loop goes on.  When the catch block fails, the function is left
  with nothing written or published.\<close>

definition resume :: "Run \<Rightarrow> thrown + jsval jsobject \<Rightarrow> App \<Rightarrow> App \<times> progress" where
  "resume r out s =
     (case commit (updatedResults r ! resultIndex r) out of
        Inl e \<Rightarrow> (s, Settled (Rejected e))
      | Inr it \<Rightarrow>
          (let us = (updatedResults r)[resultIndex r := it]
           in loopHead (r\<lparr>updatedResults := us, resultIndex := resultIndex r + 1\<rparr>)
                       (s\<lparr>results := us\<rparr>)))"

text \<open>A run that nothing interleaves with: each call is made on the current document and
  the run is resumed with its outcome, until the promise is settled.  The result is the
  state, how the promise was settled, and the world.\<close>

function drive ::
  "'w extractDataFromPdf \<Rightarrow> Run \<Rightarrow> App \<Rightarrow> 'w \<Rightarrow> (App \<times> promise) \<times> 'w" where
  "drive ex r s w =
     (if resultIndex r < length (runFiles r) then
        (case ex (runFiles r ! resultIndex r) (runFields r) w of (out, w1) \<Rightarrow>
           (case resume r out s of
              (s1, Settled p) \<Rightarrow> ((s1, p), w1)
            | (s1, Suspended r1) \<Rightarrow> drive ex r1 s1 w1))
      else ((s, Fulfilled), w))"
  by pat_completeness auto
termination
  by (relation "measure (\<lambda>(ex, r, s, w). length (runFiles r) - resultIndex r)")
     (auto simp: resume_def loopHead_def Let_def split: if_splits sum.splits)

declare drive.simps [simp del]

definition startExtraction ::
  "'w generateId \<Rightarrow> 'w extractDataFromPdf \<Rightarrow> App \<Rightarrow> 'w \<Rightarrow> (App \<times> promise) \<times> 'w" where
  "startExtraction gen ex s w =
     (case startExtraction_begin gen s w of
        ((s1, Settled p), w1) \<Rightarrow> ((s1, p), w1)
      | ((s1, Suspended r), w1) \<Rightarrow> drive ex r s1 w1)"

text \<open>The sequence of calls a run makes: one per document, in document order, each on the
  world the call before left.\<close>

fun outcomes :: "'w extractDataFromPdf \<Rightarrow> File list \<Rightarrow> string list \<Rightarrow> 'w
                  \<Rightarrow> (thrown + jsval jsobject) list \<times> 'w" where
  "outcomes ex [] fs w = ([], w)"
| "outcomes ex (f # rest) fs w =
     (case ex f fs w of (out, w1) \<Rightarrow>
        (case outcomes ex rest fs w1 of (outs, w2) \<Rightarrow> (out # outs, w2)))"

text \<open>The item the try/catch leaves: the committed item, or the item as it was when the
  catch block fails.\<close>

definition settledItem :: "ExtractedData \<Rightarrow> thrown + jsval jsobject \<Rightarrow> ExtractedData" where
  "settledItem it out = (case commit it out of Inr it1 \<Rightarrow> it1 | Inl e \<Rightarrow> it)"

section \<open>The other handlers of \<^verbatim>\<open>App\<close>\<close>

text \<open>
  \<^verbatim>\<open>handleFilesSelected\<close> (lines 22-27): the names are taken from the \<^verbatim>\<open>files\<close> of the
  current render, the new files are filtered against them and appended to the state.
\<close>

definition handleFilesSelected :: "File list \<Rightarrow> App \<Rightarrow> App" where
  "handleFilesSelected newFiles s =
     (let existingNames = set (map name (files s));
          uniqueFiles = filter (\<lambda>f. name f \<notin> existingNames) newFiles
      in s\<lparr>files := files s @ uniqueFiles\<rparr>)"


text \<open>
  \<^verbatim>\<open>handleDataUpdate\<close> (lines 69-82).  \<^verbatim>\<open>item.data\<close> is an object when it is present,
  and an object is truthy.
\<close>

definition handleDataUpdate ::
  "string \<Rightarrow> string \<Rightarrow> string \<Rightarrow> ExtractedData list \<Rightarrow> ExtractedData list" where
  "handleDataUpdate i field value prev =
     map (\<lambda>item. case data item of
            Some d \<Rightarrow> if id' item = i
                      then item\<lparr>data := Some (setProp (spread [] d) field (JStr value))\<rparr>
                      else item
          | None \<Rightarrow> item) prev"

section \<open>The export (\<^verbatim>\<open>exportToExcel\<close>)\<close>

text \<open>
  The sheet is built by \<^verbatim>\<open>XLSX.utils.json_to_sheet\<close>, a library function: its header
  row is the keys of the row objects in the order of their first appearance, and each
  row holds the values under these keys; for a value that is missing or null no cell is
  written.
\<close>

definition headerOf :: "'v jsobject list \<Rightarrow> string list" where
  "headerOf rows =
     foldl (\<lambda>h r. foldl (\<lambda>h k. if k \<in> set h then h else h @ [k]) h (map fst r)) [] rows"

record Sheet =
  header :: "string list"
  body :: "jsval option list list"

definition cellOf :: "jsval jsobject \<Rightarrow> string \<Rightarrow> jsval option" where
  "cellOf r k = (case getProp r k of Some JNull \<Rightarrow> None | c \<Rightarrow> c)"

definition json_to_sheet :: "jsval jsobject list \<Rightarrow> Sheet" where
  "json_to_sheet rows =
     \<lparr>header = headerOf rows, body = map (\<lambda>r. map (cellOf r) (headerOf rows)) rows\<rparr>"

text \<open>What the call does: the alert, or the file written with its one sheet.\<close>

datatype exportEffect = Alert string | WriteFile string string Sheet

definition isExportable :: "string set option \<Rightarrow> ExtractedData \<Rightarrow> bool" where
  "isExportable sel item =
     (if \<not> (status item = Success \<and> data item \<noteq> None) then False
      else (case sel of Some ids \<Rightarrow> id' item \<in> ids | None \<Rightarrow> True))"

definition dataOf :: "ExtractedData \<Rightarrow> jsval jsobject" where
  "dataOf item = (case data item of Some d \<Rightarrow> d | None \<Rightarrow> [])"

text \<open>A data object whose keys are distinct, none of them an array index or the name
  \<^verbatim>\<open>FileName\<close>.\<close>

definition plainKeys :: "'v jsobject \<Rightarrow> bool" where
  "plainKeys d = (distinct (map fst d)
                  \<and> list_all (\<lambda>k. \<not> isArrayIndex k \<and> k \<noteq> ''FileName'') (map fst d))"

text \<open>\<^verbatim>\<open>{FileName: item.fileName, ...item.data}\<close>\<close>

definition exportRow :: "ExtractedData \<Rightarrow> jsval jsobject" where
  "exportRow item = spread [(''FileName'', JStr (fileName item))] (dataOf item)"

definition exportableData ::
  "ExtractedData list \<Rightarrow> string set option \<Rightarrow> jsval jsobject list" where
  "exportableData dat sel = map exportRow (filter (isExportable sel) dat)"

definition exportToExcel ::
  "ExtractedData list \<Rightarrow> string set option \<Rightarrow> string \<Rightarrow> exportEffect" where
  "exportToExcel dat sel filename =
     (if exportableData dat sel = [] then Alert ''No data available to export.''
      else WriteFile filename ''Extracted Data'' (json_to_sheet (exportableData dat sel)))"

text \<open>\<^verbatim>\<open>handleExport\<close> and \<^verbatim>\<open>handleExportAll\<close> (\<^verbatim>\<open>src/App.tsx\<close>, lines 142-148); the first
  takes the default file name.\<close>

definition handleExport :: "App \<Rightarrow> exportEffect" where
  "handleExport s = exportToExcel (results s) (Some (selectedIds s)) ''extracted_data.xlsx''"

definition handleExportAll :: "App \<Rightarrow> exportEffect" where
  "handleExportAll s = exportToExcel (results s) None ''all_extracted_data.xlsx''"

section \<open>The grouping engine (\<^verbatim>\<open>summaryRows\<close> of \<^verbatim>\<open>ExcelSummary\<close>)\<close>

subsection \<open>String operations\<close>

text \<open>\<^verbatim>\<open>String.prototype.trim\<close> removes white space and line terminators at both ends;
  in the range of the model these are TAB, LF, VT, FF, CR, SP and NBSP.\<close>

definition isWhiteSpace :: "char \<Rightarrow> bool" where
  "isWhiteSpace c = ((of_char c :: nat) \<in> {9, 10, 11, 12, 13, 32, 160})"

definition trim :: "string \<Rightarrow> string" where
  "trim s = rev (dropWhile isWhiteSpace (rev (dropWhile isWhiteSpace s)))"

text \<open>\<^verbatim>\<open>String.prototype.toLowerCase\<close>: the capital letters of the range are A-Z and
  U+00C0..U+00DE without the multiplication sign U+00D7.\<close>

definition lowerChar :: "char \<Rightarrow> char" where
  "lowerChar c =
     (let n = (of_char c :: nat)
      in if (65 \<le> n \<and> n \<le> 90) \<or> (192 \<le> n \<and> n \<le> 222 \<and> n \<noteq> 215) then char_of (n + 32) else c)"

definition toLowerCase :: "string \<Rightarrow> string" where
  "toLowerCase s = map lowerChar s"

text \<open>
  Every pattern of the component is a literal with the flag \<^verbatim>\<open>i\<close>: \<open>RegExp src\<close> is
  \<^verbatim>\<open>/src/i\<close>.  Two characters match when they have the same canonical (upper case)
  form; the patterns are ASCII, and no character outside ASCII has an ASCII canonical
  form, so the canonical form is written out for ASCII only.
\<close>

datatype RegExp = RegExp (source: string)

definition canonicalize :: "char \<Rightarrow> char" where
  "canonicalize c =
     (let n = (of_char c :: nat) in if 97 \<le> n \<and> n \<le> 122 then char_of (n - 32) else c)"

fun matchHere :: "string \<Rightarrow> string \<Rightarrow> bool" where
  "matchHere [] s = True"
| "matchHere (p # ps) [] = False"
| "matchHere (p # ps) (c # cs) = (canonicalize p = canonicalize c \<and> matchHere ps cs)"

fun test :: "RegExp \<Rightarrow> string \<Rightarrow> bool" where
  "test p [] = matchHere (source p) []"
| "test p (c # cs) = (matchHere (source p) (c # cs) \<or> test p cs)"

fun join :: "string \<Rightarrow> string list \<Rightarrow> string" where
  "join sep [] = []"
| "join sep [x] = x"
| "join sep (x # y # ys) = x @ sep @ join sep (y # ys)"

subsection \<open>Role resolution (lines 22-30)\<close>

definition findField :: "string list \<Rightarrow> RegExp list \<Rightarrow> string option" where
  "findField flds patterns = find (\<lambda>f. list_ex (\<lambda>p. test p (toLowerCase f)) patterns) flds"

text \<open>\<^verbatim>\<open>a || b\<close> on a field name that may be undefined: the empty string is falsy.\<close>

definition orElse :: "string option \<Rightarrow> string option \<Rightarrow> string option" where
  "orElse a b = (case a of Some x \<Rightarrow> if x \<noteq> [] then Some x else b | None \<Rightarrow> b)"

definition customerPatterns :: "RegExp list" where
  "customerPatterns = [RegExp ''customer'', RegExp ''name'', RegExp ''client'']"

definition jobPatterns :: "RegExp list" where
  "jobPatterns = [RegExp ''job no'', RegExp ''job'', RegExp ''number'']"

definition advancePatterns :: "RegExp list" where
  "advancePatterns = [RegExp ''advance total'', RegExp ''advance'']"

definition termsPatterns :: "RegExp list" where
  "termsPatterns = [RegExp ''payment terms'', RegExp ''terms'', RegExp ''payment'']"

definition datePatterns :: "RegExp list" where
  "datePatterns = [RegExp ''invoice date'', RegExp ''date'']"

definition grandTotalPatterns :: "RegExp list" where
  "grandTotalPatterns =
     [RegExp ''grand total'', RegExp ''total amount'', RegExp ''total'', RegExp ''amount'']"

definition customerField :: "string list \<Rightarrow> string option" where
  "customerField flds =
     orElse (findField flds customerPatterns) (case flds of [] \<Rightarrow> None | f # _ \<Rightarrow> Some f)"

subsection \<open>Grouping (lines 32-89)\<close>

text \<open>The accumulator of one group; a \<^verbatim>\<open>Set\<close> of strings is the list of its members in
  insertion order.  \<open>customerName'\<close>, \<open>jobNos'\<close>, \<open>paymentTerms'\<close>, \<open>files'\<close> and
  \<open>ids'\<close> are the properties without the prime.\<close>

record Group =
  customerName' :: string
  jobNos' :: "string list"
  advanceTotals :: "string list"
  paymentTerms' :: "string list"
  invoiceDates :: "string list"
  grandTotals :: "string list"
  files' :: "string list"
  ids' :: "string list"

record SummaryRow =
  key :: string
  customerName :: string
  jobNos :: string
  advanceTotal :: string
  paymentTerms :: string
  invoiceDate :: string
  grandTotal :: string
  fileCount :: nat
  ids :: "string list"

definition setAdd :: "string list \<Rightarrow> string \<Rightarrow> string list" where
  "setAdd st x = (if x \<in> set st then st else st @ [x])"

text \<open>\<^verbatim>\<open>item.data?.[field]\<close>; an undefined field is the property name \<^verbatim>\<open>"undefined"\<close>.\<close>

definition propertyKey :: "string option \<Rightarrow> string" where
  "propertyKey field = (case field of None \<Rightarrow> ''undefined'' | Some f \<Rightarrow> f)"

definition dataProp :: "ExtractedData \<Rightarrow> string option \<Rightarrow> property" where
  "dataProp item field =
     (case data item of None \<Rightarrow> Undefined | Some d \<Rightarrow> readProp d (propertyKey field))"

definition addToSet :: "ExtractedData \<Rightarrow> string list \<Rightarrow> string option \<Rightarrow> string list" where
  "addToSet item st field =
     (case field of
        None \<Rightarrow> st
      | Some f \<Rightarrow> if f \<noteq> [] \<and> truthy (dataProp item field)
                  then setAdd st (String (dataProp item field)) else st)"

text \<open>\<^verbatim>\<open>String(customerVal || 'Unknown')\<close>\<close>

definition customerText :: "ExtractedData \<Rightarrow> string option \<Rightarrow> string" where
  "customerText item cf =
     (if truthy (dataProp item cf) then String (dataProp item cf) else ''Unknown'')"

definition normalizedKey :: "ExtractedData \<Rightarrow> string option \<Rightarrow> string" where
  "normalizedKey item cf = toLowerCase (trim (customerText item cf))"

text \<open>
  \<^verbatim>\<open>groups\<close> is created by \<^verbatim>\<open>{}\<close>, so \<^verbatim>\<open>groups[k]\<close> also finds what the object
  inherits from \<^verbatim>\<open>Object.prototype\<close>.  Each of these inherited values is truthy and has
  no property \<^verbatim>\<open>files\<close>: for such a key no group is created and
  \<^verbatim>\<open>groups[k].files.push\<close> throws a \<^verbatim>\<open>TypeError\<close>.
\<close>

record Roles =
  customerRole :: "string option"
  jobRole :: "string option"
  advanceRole :: "string option"
  termsRole :: "string option"
  dateRole :: "string option"
  grandTotalRole :: "string option"

definition resolveRoles :: "string list \<Rightarrow> Roles" where
  "resolveRoles flds =
     \<lparr>customerRole = customerField flds,
      jobRole = findField flds jobPatterns,
      advanceRole = findField flds advancePatterns,
      termsRole = findField flds termsPatterns,
      dateRole = findField flds datePatterns,
      grandTotalRole = findField flds grandTotalPatterns\<rparr>"

definition newGroup :: "string \<Rightarrow> Group" where
  "newGroup shown =
     \<lparr>customerName' = shown, jobNos' = [], advanceTotals = [], paymentTerms' = [],
      invoiceDates = [], grandTotals = [], files' = [], ids' = []\<rparr>"

definition addMember :: "Roles \<Rightarrow> ExtractedData \<Rightarrow> Group \<Rightarrow> Group" where
  "addMember ro item g =
     g\<lparr>jobNos' := addToSet item (jobNos' g) (jobRole ro),
       advanceTotals := addToSet item (advanceTotals g) (advanceRole ro),
       paymentTerms' := addToSet item (paymentTerms' g) (termsRole ro),
       invoiceDates := addToSet item (invoiceDates g) (dateRole ro),
       grandTotals := addToSet item (grandTotals g) (grandTotalRole ro),
       files' := files' g @ [fileName item],
       ids' := ids' g @ [id' item]\<rparr>"

text \<open>The body of the \<^verbatim>\<open>forEach\<close> (lines 44-77) on one item.\<close>

definition addItem :: "Roles \<Rightarrow> Group jsobject \<Rightarrow> ExtractedData \<Rightarrow> jsError + Group jsobject" where
  "addItem ro groups item =
     (let k = normalizedKey item (customerRole ro)
      in case getProp groups k of
           Some g \<Rightarrow> Inr (setProp groups k (addMember ro item g))
         | None \<Rightarrow>
             if inherited k then Inl TypeError
             else Inr (setProp (setProp groups k (newGroup (customerText item (customerRole ro))))
                         k (addMember ro item (newGroup (customerText item (customerRole ro))))))"

fun forEach :: "Roles \<Rightarrow> Group jsobject \<Rightarrow> ExtractedData list \<Rightarrow> jsError + Group jsobject" where
  "forEach ro groups [] = Inr groups"
| "forEach ro groups (item # rest) =
     (case addItem ro groups item of Inl e \<Rightarrow> Inl e | Inr groups1 \<Rightarrow> forEach ro groups1 rest)"

definition display :: "string list \<Rightarrow> string" where
  "display st = (if length st > 0 then join '', '' st else ''-'')"

definition toRow :: "string \<times> Group \<Rightarrow> SummaryRow" where
  "toRow e = (case e of (k, g) \<Rightarrow>
     \<lparr>key = k, customerName = customerName' g, jobNos = display (jobNos' g),
      advanceTotal = display (advanceTotals g), paymentTerms = display (paymentTerms' g),
      invoiceDate = display (invoiceDates g), grandTotal = display (grandTotals g),
      fileCount = length (files' g), ids = ids' g\<rparr>)"

definition selectedItems :: "ExtractedData list \<Rightarrow> string set \<Rightarrow> ExtractedData list" where
  "selectedItems dat sel =
     filter (\<lambda>item. id' item \<in> sel \<and> status item = Success \<and> data item \<noteq> None) dat"

definition summaryRows ::
  "ExtractedData list \<Rightarrow> string set \<Rightarrow> string list \<Rightarrow> jsError + SummaryRow list" where
  "summaryRows dat sel flds =
     (if length (selectedItems dat sel) = 0 then Inr []
      else (case forEach (resolveRoles flds) [] (selectedItems dat sel) of
              Inl e \<Rightarrow> Inl e
            | Inr groups \<Rightarrow> Inr (map toRow groups)))"

text \<open>The keys of a scan in the order of their first occurrence.\<close>

definition firstSeen :: "string list \<Rightarrow> string list" where
  "firstSeen ks = rev (remdups (rev ks))"

section \<open>Example inputs\<close>

text \<open>A generator and a service over a counter as the world: the service throws for the
  file named \<^verbatim>\<open>bad.pdf\<close> and returns null for every requested field otherwise.\<close>

definition exampleId :: "nat generateId" where
  "exampleId n = (replicate (Suc n) CHR ''x'', Suc n)"

definition exampleExtract :: "nat extractDataFromPdf" where
  "exampleExtract f flds w =
     (if name f = ''bad.pdf'' then Inl (Thrown (Some (JStr ''API Key is missing'')))
      else Inr (map (\<lambda>k. (k, JNull)) flds), w)"

text \<open>The same service, but what it throws for \<^verbatim>\<open>bad.pdf\<close> is \<^verbatim>\<open>null\<close>.\<close>

definition nullExtract :: "nat extractDataFromPdf" where
  "nullExtract f flds w =
     (if name f = ''bad.pdf'' then Inl ThrownNullish
      else Inr (map (\<lambda>k. (k, JNull)) flds), w)"

definition pdf :: "string \<Rightarrow> File" where
  "pdf n = \<lparr>name = n, content = []\<rparr>"

definition exampleApp :: App where
  "exampleApp =
     \<lparr>files = [pdf ''a.pdf'', pdf ''bad.pdf'', pdf ''c.pdf''], fields' = [''Customer''],
      results = [], status' = Idle, selectedIds = {}, activeTab = TabAll\<rparr>"

definition success :: "string \<Rightarrow> string \<Rightarrow> jsval jsobject \<Rightarrow> ExtractedData" where
  "success i f d = \<lparr>id' = i, fileName = f, status = Success, data = Some d, error = None\<rparr>"

text \<open>A state after a finished run whose files have all been removed again.\<close>

definition emptiedApp :: App where
  "emptiedApp =
     \<lparr>files = [], fields' = [''Customer''],
      results = [success ''x'' ''a.pdf'' [(''Customer'', JStr ''Acme'')]],
      status' = Completed, selectedIds = {''x''}, activeTab = TabAll\<rparr>"

text \<open>A first batch of one file, its run suspended in the call for that file, and the
  state after a reset, a new file and the start of a second run.\<close>

definition firstBatch :: App where
  "firstBatch =
     \<lparr>files = [pdf ''a.pdf''], fields' = [''Customer''],
      results = [], status' = Idle, selectedIds = {}, activeTab = TabAll\<rparr>"




text \<open>A store of three items: two share an identifier, and the second has no data.\<close>

definition exampleStore :: "ExtractedData list" where
  "exampleStore =
     [success ''x'' ''a.pdf'' [(''Customer'', JStr ''Acme''), (''Date'', JStr ''d'')],
      \<lparr>id' = ''x'', fileName = ''b.pdf'', status = Error, data = None,
        error = Some (JStr ''API Key is missing'')\<rparr>,
      success ''y'' ''c.pdf'' [(''Customer'', JStr ''Zeta'')]]"

text \<open>A state whose one item was extracted with the keys \<^verbatim>\<open>Total\<close>, \<^verbatim>\<open>Date\<close> and whose
  field list has since been reordered to \<^verbatim>\<open>Date\<close>, \<^verbatim>\<open>Total\<close>.\<close>

definition reorderedApp :: App where
  "reorderedApp =
     \<lparr>files = [pdf ''a.pdf''], fields' = [''Date'', ''Total''],
      results = [success ''x'' ''a.pdf'' [(''Total'', JStr ''5''), (''Date'', JStr ''2024-01-01'')]],
      status' = Completed, selectedIds = {''x''}, activeTab = TabAll\<rparr>"

text \<open>Three items whose customer values differ by case and surrounding white space; two
  items whose customer values are the empty string and two spaces; two items whose
  customer values are a name and a number.\<close>

definition acmeStore :: "ExtractedData list" where
  "acmeStore =
     [success ''a'' ''a.pdf'' [(''Customer'', JStr ''Acme Corp'')],
      success ''b'' ''b.pdf'' [(''Customer'', JStr '' acme corp '')],
      success ''c'' ''c.pdf'' [(''Customer'', JStr ''ACME CORP'')]]"

definition blankStore :: "ExtractedData list" where
  "blankStore =
     [success ''a'' ''a.pdf'' [(''Customer'', JStr [])],
      success ''b'' ''b.pdf'' [(''Customer'', JStr ''  '')]]"

definition numberedStore :: "ExtractedData list" where
  "numberedStore =
     [success ''a'' ''a.pdf'' [(''Customer'', JStr ''Zeta'')],
      success ''b'' ''b.pdf'' [(''Customer'', JStr ''42'')]]"

text \<open>The field list of the template \<^verbatim>\<open>job_invoice\<close> (\<^verbatim>\<open>applyTemplate\<close> of
  \<^verbatim>\<open>FieldConfig\<close>).\<close>

definition jobInvoiceTemplate :: "string list" where
  "jobInvoiceTemplate =
     [''Customer'', ''Job No'', ''Advance Total'', ''Payment Terms'', ''Invoice date'',
      ''Grand Total'']"
section \<open>Properties of the orchestrator\<close>

lemma initialResults_length: "length (fst (initialResults gen fs w)) = length fs"
  by (induction fs arbitrary: w) (auto simp: split_beta)

lemma initialResults_fileName: "map fileName (fst (initialResults gen fs w)) = map name fs"
  by (induction fs arbitrary: w) (auto simp: split_beta)

lemma initialResults_pending:
  "it \<in> set (fst (initialResults gen fs w)) \<Longrightarrow> status it = Pending \<and> data it = None \<and> error it = None"
  by (induction fs arbitrary: w) (auto simp: split_beta)

lemma outcomes_length: "length (fst (outcomes ex fs flds w)) = length fs"
  by (induction fs arbitrary: w) (auto simp: split_beta)

lemma outcomes_drop:
  "k < length fs \<Longrightarrow> ex (fs ! k) flds w = (out, w1) \<Longrightarrow>
   outcomes ex (drop k fs) flds w =
     (out # fst (outcomes ex (drop (Suc k) fs) flds w1), snd (outcomes ex (drop (Suc k) fs) flds w1))"
  by (simp add: Cons_nth_drop_Suc [symmetric] split_beta)

lemma commit_settled:
  "out \<noteq> Inl ThrownNullish \<Longrightarrow> commit it out = Inr (settledItem it out)"
  by (auto simp: settledItem_def commit_def split: sum.splits thrown.splits)

lemma commit_nullish: "commit it (Inl ThrownNullish) = Inl TypeError"
  by (simp add: commit_def)

lemma settledItem_Processing:
  "out \<noteq> Inl ThrownNullish \<Longrightarrow>
   settledItem (it\<lparr>status := Processing\<rparr>) out = settledItem it out"
  by (auto simp: settledItem_def commit_def split: sum.splits thrown.splits)

lemma settledItem_terminal:
  "out \<noteq> Inl ThrownNullish \<Longrightarrow>
   status (settledItem it out) = Success \<or> status (settledItem it out) = Error"
  by (auto simp: settledItem_def commit_def split: sum.splits thrown.splits)

lemma settledItem_fileName: "fileName (settledItem it out) = fileName it"
  by (auto simp: settledItem_def commit_def split: sum.splits thrown.splits)

text \<open>A suspended run none of whose remaining calls throws null or undefined goes through
  to the end.\<close>

lemma drive_closed:
  "resultIndex r < length (runFiles r) \<Longrightarrow> length (updatedResults r) = length (runFiles r) \<Longrightarrow>
   Inl ThrownNullish \<notin> set (fst (outcomes ex (drop (resultIndex r) (runFiles r)) (runFields r) w)) \<Longrightarrow>
   drive ex r s w =
     ((s\<lparr>results := map (\<lambda>j. if j < resultIndex r then updatedResults r ! j
                              else settledItem (updatedResults r ! j)
                                     (fst (outcomes ex (drop (resultIndex r) (runFiles r)) (runFields r) w)
                                        ! (j - resultIndex r)))
                         [0 ..< length (runFiles r)],
        status' := Completed\<rparr>, Fulfilled),
      snd (outcomes ex (drop (resultIndex r) (runFiles r)) (runFields r) w))"
proof (induction ex r s w rule: drive.induct)
  case (1 ex r s w)
  let ?k = "resultIndex r" and ?n = "length (runFiles r)" and ?us = "updatedResults r"
  obtain out w1 where ex: "ex (runFiles r ! ?k) (runFields r) w = (out, w1)"
    by (cases "ex (runFiles r ! ?k) (runFields r) w")
  let ?us1 = "?us[?k := settledItem (?us ! ?k) out]"
  have oc: "fst (outcomes ex (drop ?k (runFiles r)) (runFields r) w)
               = out # fst (outcomes ex (drop (Suc ?k) (runFiles r)) (runFields r) w1)"
            "snd (outcomes ex (drop ?k (runFiles r)) (runFields r) w)
               = snd (outcomes ex (drop (Suc ?k) (runFiles r)) (runFields r) w1)"
    using outcomes_drop [of "resultIndex r" "runFiles r" ex "runFields r" w out w1, OF "1.prems"(1) ex]
    by simp_all
  have ok: "out \<noteq> Inl ThrownNullish"
    and rest: "Inl ThrownNullish \<notin> set (fst (outcomes ex (drop (Suc ?k) (runFiles r)) (runFields r) w1))"
    using "1.prems"(3) unfolding oc by auto
  note cm = commit_settled [OF ok, of "?us ! ?k"]
  show ?case
  proof (cases "Suc ?k < ?n")
    case False
    then have last: "Suc ?k = ?n" using "1.prems" by simp
    have res: "resume r out s = (s\<lparr>results := ?us1, status' := Completed\<rparr>, Settled Fulfilled)"
      using False by (simp add: resume_def cm loopHead_def Let_def)
    have dr: "drop (Suc ?k) (runFiles r) = []" using last by simp
    have "map (\<lambda>j. if j < ?k then ?us ! j else settledItem (?us ! j) ((out # []) ! (j - ?k))) [0 ..< ?n] = ?us1"
      using "1.prems" last by (intro nth_equalityI) (auto simp: nth_list_update less_Suc_eq)
    then show ?thesis
      using "1.prems" ex res
      by (subst drive.simps) (simp add: oc dr cong: if_cong)
  next
    case True
    let ?us2 = "?us1[Suc ?k := (?us1 ! Suc ?k)\<lparr>status := Processing\<rparr>]"
    let ?r1 = "r\<lparr>updatedResults := ?us2, resultIndex := Suc ?k\<rparr>"
    have res: "resume r out s = (s\<lparr>results := ?us2\<rparr>, Suspended ?r1)"
      using True by (simp add: resume_def cm loopHead_def Let_def)
    have ih: "drive ex ?r1 (s\<lparr>results := ?us2\<rparr>) w1 =
      ((s\<lparr>results := ?us2\<rparr>\<lparr>results := map (\<lambda>j. if j < Suc ?k then ?us2 ! j
                              else settledItem (?us2 ! j)
                                     (fst (outcomes ex (drop (Suc ?k) (runFiles r)) (runFields r) w1)
                                        ! (j - Suc ?k)))
                         [0 ..< ?n],
        status' := Completed\<rparr>, Fulfilled),
      snd (outcomes ex (drop (Suc ?k) (runFiles r)) (runFields r) w1))"
      using "1.IH" [OF "1.prems"(1) ex [symmetric] res [symmetric] refl] True "1.prems"(2) rest by simp
    let ?outs = "fst (outcomes ex (drop (Suc ?k) (runFiles r)) (runFields r) w1)"
    have len: "length ?outs = ?n - Suc ?k"
      by (simp add: outcomes_length)
    have eq: "map (\<lambda>j. if j < Suc ?k then ?us2 ! j else settledItem (?us2 ! j) (?outs ! (j - Suc ?k))) [0 ..< ?n]
       = map (\<lambda>j. if j < ?k then ?us ! j else settledItem (?us ! j) ((out # ?outs) ! (j - ?k))) [0 ..< ?n]"
    proof (intro nth_equalityI)
      show "length (map (\<lambda>j. if j < Suc ?k then ?us2 ! j else settledItem (?us2 ! j) (?outs ! (j - Suc ?k))) [0 ..< ?n])
          = length (map (\<lambda>j. if j < ?k then ?us ! j else settledItem (?us ! j) ((out # ?outs) ! (j - ?k))) [0 ..< ?n])"
        by simp
    next
      fix i
      assume "i < length (map (\<lambda>j. if j < Suc ?k then ?us2 ! j else settledItem (?us2 ! j) (?outs ! (j - Suc ?k))) [0 ..< ?n])"
      then have i: "i < ?n" by simp
      have nn: "?outs ! (i - Suc ?k) \<noteq> Inl ThrownNullish" if "Suc ?k \<le> i"
        using rest i that len by (metis diff_less_mono nth_mem)
      show "map (\<lambda>j. if j < Suc ?k then ?us2 ! j else settledItem (?us2 ! j) (?outs ! (j - Suc ?k))) [0 ..< ?n] ! i
          = map (\<lambda>j. if j < ?k then ?us ! j else settledItem (?us ! j) ((out # ?outs) ! (j - ?k))) [0 ..< ?n] ! i"
        using i "1.prems"(2) True nn
        by (auto simp: nth_list_update less_Suc_eq settledItem_Processing nth_Cons' Suc_diff_le)
    qed
    have step: "drive ex r s w = drive ex ?r1 (s\<lparr>results := ?us2\<rparr>) w1"
      using "1.prems" by (subst drive.simps) (simp add: ex res)
    show ?thesis
      unfolding step ih oc eq by simp
  qed
qed

text \<open>A suspended run one of whose remaining calls throws null or undefined ends with
  its promise rejected.\<close>

lemma drive_rejected:
  "resultIndex r < length (runFiles r) \<Longrightarrow>
   Inl ThrownNullish \<in> set (fst (outcomes ex (drop (resultIndex r) (runFiles r)) (runFields r) w)) \<Longrightarrow>
   snd (fst (drive ex r s w)) = Rejected TypeError"
proof (induction ex r s w rule: drive.induct)
  case (1 ex r s w)
  let ?k = "resultIndex r" and ?n = "length (runFiles r)" and ?us = "updatedResults r"
  obtain out w1 where ex: "ex (runFiles r ! ?k) (runFields r) w = (out, w1)"
    by (cases "ex (runFiles r ! ?k) (runFields r) w")
  have oc: "fst (outcomes ex (drop ?k (runFiles r)) (runFields r) w)
               = out # fst (outcomes ex (drop (Suc ?k) (runFiles r)) (runFields r) w1)"
    using outcomes_drop [of "resultIndex r" "runFiles r" ex "runFields r" w out w1, OF "1.prems"(1) ex]
    by simp
  show ?case
  proof (cases "out = Inl ThrownNullish")
    case True
    have "resume r out s = (s, Settled (Rejected TypeError))"
      unfolding True by (simp add: resume_def commit_nullish)
    then show ?thesis
      using "1.prems"(1) by (subst drive.simps) (simp add: ex)
  next
    case False
    then have rest: "Inl ThrownNullish \<in> set (fst (outcomes ex (drop (Suc ?k) (runFiles r)) (runFields r) w1))"
      using "1.prems"(2) unfolding oc by auto
    then have "drop (Suc ?k) (runFiles r) \<noteq> []"
      by auto
    then have more: "Suc ?k < ?n" by simp
    let ?us1 = "?us[?k := settledItem (?us ! ?k) out]"
    let ?us2 = "?us1[Suc ?k := (?us1 ! Suc ?k)\<lparr>status := Processing\<rparr>]"
    let ?r1 = "r\<lparr>updatedResults := ?us2, resultIndex := Suc ?k\<rparr>"
    have res: "resume r out s = (s\<lparr>results := ?us2\<rparr>, Suspended ?r1)"
      using more by (simp add: resume_def commit_settled [OF False] loopHead_def Let_def)
    have ih: "snd (fst (drive ex ?r1 (s\<lparr>results := ?us2\<rparr>) w1)) = Rejected TypeError"
      using "1.IH" [OF "1.prems"(1) ex [symmetric] res [symmetric] refl] more rest by simp
    have step: "drive ex r s w = drive ex ?r1 (s\<lparr>results := ?us2\<rparr>) w1"
      using "1.prems"(1) by (subst drive.simps) (simp add: ex res)
    show ?thesis
      unfolding step by (rule ih)
  qed
qed

lemma startExtraction_begin_suspends:
  assumes "files s \<noteq> []" and "fields' s \<noteq> []"
  shows "startExtraction_begin gen s w =
    ((s\<lparr>status' := Extracting, activeTab := TabAll,
        results := (fst (initialResults gen (files s) w))
                     [0 := (fst (initialResults gen (files s) w) ! 0)\<lparr>status := Processing\<rparr>],
        selectedIds := {id' (hd (fst (initialResults gen (files s) w)))}\<rparr>,
      Suspended \<lparr>runFiles = files s, runFields = fields' s,
                 updatedResults = (fst (initialResults gen (files s) w))
                     [0 := (fst (initialResults gen (files s) w) ! 0)\<lparr>status := Processing\<rparr>],
                 resultIndex = 0\<rparr>),
     snd (initialResults gen (files s) w))"
proof -
  have "fst (initialResults gen (files s) w) \<noteq> []"
    using initialResults_length [of gen "files s" w] assms(1) by auto
  then show ?thesis
    using assms by (simp add: startExtraction_begin_def loopHead_def Let_def split_beta)
qed

lemma startExtraction_closed:
  assumes "files s \<noteq> []" and "fields' s \<noteq> []"
    and "Inl ThrownNullish \<notin> set (fst (outcomes ex (files s) (fields' s)
                                          (snd (initialResults gen (files s) w))))"
  shows "startExtraction gen ex s w =
    ((s\<lparr>status' := Completed, activeTab := TabAll,
        results := map2 settledItem (fst (initialResults gen (files s) w))
                     (fst (outcomes ex (files s) (fields' s) (snd (initialResults gen (files s) w)))),
        selectedIds := {id' (hd (fst (initialResults gen (files s) w)))}\<rparr>, Fulfilled),
     snd (outcomes ex (files s) (fields' s) (snd (initialResults gen (files s) w))))"
proof -
  let ?ini = "fst (initialResults gen (files s) w)" and ?w1 = "snd (initialResults gen (files s) w)"
  let ?n = "length (files s)"
  let ?us = "?ini[0 := (?ini ! 0)\<lparr>status := Processing\<rparr>]"
  let ?s1 = "s\<lparr>status' := Extracting, activeTab := TabAll, results := ?us,
               selectedIds := {id' (hd ?ini)}\<rparr>"
  let ?r = "\<lparr>runFiles = files s, runFields = fields' s, updatedResults = ?us, resultIndex = 0\<rparr>"
  let ?outs = "fst (outcomes ex (files s) (fields' s) ?w1)"
  have len: "length ?ini = ?n" by (rule initialResults_length)
  have pos: "0 < ?n" using assms(1) by simp
  have first: "startExtraction_begin gen s w = ((?s1, Suspended ?r), ?w1)"
    by (rule startExtraction_begin_suspends [OF assms(1,2)])
  have run: "drive ex ?r ?s1 ?w1 =
     ((?s1\<lparr>results := map (\<lambda>j. if j < 0 then ?us ! j else settledItem (?us ! j) (?outs ! (j - 0))) [0 ..< ?n],
          status' := Completed\<rparr>, Fulfilled), snd (outcomes ex (files s) (fields' s) ?w1))"
    using drive_closed [of ?r ex ?w1 ?s1] pos len assms(3) by simp
  have eq: "map (\<lambda>j. if j < 0 then ?us ! j else settledItem (?us ! j) (?outs ! (j - 0))) [0 ..< ?n]
          = map2 settledItem ?ini ?outs"
  proof (intro nth_equalityI)
    show "length (map (\<lambda>j. if j < 0 then ?us ! j else settledItem (?us ! j) (?outs ! (j - 0))) [0 ..< ?n])
          = length (map2 settledItem ?ini ?outs)"
      using len by (simp add: outcomes_length)
  next
    fix i assume "i < length (map (\<lambda>j. if j < 0 then ?us ! j else settledItem (?us ! j) (?outs ! (j - 0))) [0 ..< ?n])"
    then have i: "i < ?n" by simp
    then have "?outs ! i \<noteq> Inl ThrownNullish"
      using assms(3) by (metis nth_mem outcomes_length)
    then have "settledItem (?us ! i) (?outs ! i) = settledItem (?ini ! i) (?outs ! i)"
      using i len by (cases "i = 0") (simp_all add: settledItem_Processing)
    then show "map (\<lambda>j. if j < 0 then ?us ! j else settledItem (?us ! j) (?outs ! (j - 0))) [0 ..< ?n] ! i
          = map2 settledItem ?ini ?outs ! i"
      using i len by (simp add: outcomes_length)
  qed
  have "startExtraction gen ex s w = drive ex ?r ?s1 ?w1"
    by (simp add: startExtraction_def first)
  also note run
  finally show ?thesis
    unfolding eq by simp
qed

lemma startExtraction_rejected:
  assumes "files s \<noteq> []" and "fields' s \<noteq> []"
    and "Inl ThrownNullish \<in> set (fst (outcomes ex (files s) (fields' s)
                                       (snd (initialResults gen (files s) w))))"
  shows "snd (fst (startExtraction gen ex s w)) = Rejected TypeError"
proof -
  have pos: "0 < length (files s)" using assms(1) by simp
  show ?thesis
    unfolding startExtraction_def startExtraction_begin_suspends [OF assms(1,2)]
    using drive_rejected [of "\<lparr>runFiles = files s, runFields = fields' s,
                 updatedResults = (fst (initialResults gen (files s) w))
                     [0 := (fst (initialResults gen (files s) w) ! 0)\<lparr>status := Processing\<rparr>],
                 resultIndex = 0\<rparr>" ex "snd (initialResults gen (files s) w)"] pos assms(3)
    by simp
qed

text \<open>The run over a non-empty batch completes exactly when no call throws null or
  undefined.\<close>

lemma run_completes_iff:
  assumes "files s \<noteq> []" and "fields' s \<noteq> []"
  shows "snd (fst (startExtraction gen ex s w)) = Fulfilled
     \<longleftrightarrow> Inl ThrownNullish \<notin> set (fst (outcomes ex (files s) (fields' s)
                                        (snd (initialResults gen (files s) w))))"
  using startExtraction_closed [OF assms, of ex gen w] startExtraction_rejected [OF assms, of ex gen w]
  by (cases "Inl ThrownNullish \<in> set (fst (outcomes ex (files s) (fields' s)
                                        (snd (initialResults gen (files s) w))))") simp_all

lemma startExtraction_guard:
  "files s = [] \<or> fields' s = [] \<Longrightarrow> startExtraction gen ex s w = ((s, Fulfilled), w)"
  by (auto simp: startExtraction_def startExtraction_begin_def)

lemma startExtraction_fileNames:
  assumes "files s \<noteq> []" and "fields' s \<noteq> []"
    and "Inl ThrownNullish \<notin> set (fst (outcomes ex (files s) (fields' s)
                                          (snd (initialResults gen (files s) w))))"
  shows "map fileName (results (fst (fst (startExtraction gen ex s w)))) = map name (files s)"
proof -
  let ?ini = "fst (initialResults gen (files s) w)"
  let ?outs = "fst (outcomes ex (files s) (fields' s) (snd (initialResults gen (files s) w)))"
  have len: "length ?ini = length (files s)" "length ?outs = length (files s)"
    by (simp_all add: initialResults_length outcomes_length)
  have "map fileName (map2 settledItem ?ini ?outs) = map fileName ?ini"
    using len by (intro nth_equalityI) (simp_all add: settledItem_fileName)
  then show ?thesis
    by (simp add: startExtraction_closed [OF assms] initialResults_fileName)
qed

text \<open>
  C1.  For a batch of at least one document and a non-empty field list, when the run
  has completed the store holds exactly one item per document, in the order of the
  documents and under their file names, every item is in a terminal state, and the
  batch is marked completed.
\<close>

theorem run_fills_store:
  assumes "files s \<noteq> []" and "fields' s \<noteq> []"
    and "snd (fst (startExtraction gen ex s w)) = Fulfilled"
  shows "length (results (fst (fst (startExtraction gen ex s w)))) = length (files s)
       \<and> map fileName (results (fst (fst (startExtraction gen ex s w)))) = map name (files s)
       \<and> (\<forall>it \<in> set (results (fst (fst (startExtraction gen ex s w)))).
             status it = Success \<or> status it = Error)
       \<and> status' (fst (fst (startExtraction gen ex s w))) = Completed"
proof -
  let ?ini = "fst (initialResults gen (files s) w)"
  let ?outs = "fst (outcomes ex (files s) (fields' s) (snd (initialResults gen (files s) w)))"
  have nn: "Inl ThrownNullish \<notin> set ?outs"
    using run_completes_iff [OF assms(1,2), of gen ex w] assms(3) by simp
  have res: "results (fst (fst (startExtraction gen ex s w))) = map2 settledItem ?ini ?outs"
    and st: "status' (fst (fst (startExtraction gen ex s w))) = Completed"
    by (simp_all add: startExtraction_closed [OF assms(1,2) nn])
  have len: "length ?ini = length (files s)" "length ?outs = length (files s)"
    by (simp_all add: initialResults_length outcomes_length)
  have "map fileName (results (fst (fst (startExtraction gen ex s w)))) = map name (files s)"
    by (rule startExtraction_fileNames [OF assms(1,2) nn])
  moreover have "status it = Success \<or> status it = Error"
    if "it \<in> set (map2 settledItem ?ini ?outs)" for it
  proof -
    from that obtain a b where "(a, b) \<in> set (zip ?ini ?outs)" and it: "it = settledItem a b"
      by auto
    then have "b \<in> set ?outs" by (meson set_zip_rightD)
    then have "b \<noteq> Inl ThrownNullish" using nn by auto
    then show ?thesis unfolding it by (rule settledItem_terminal)
  qed
  ultimately show ?thesis
    using len by (simp add: res st)
qed

theorem run_fills_store_witness:
  "files exampleApp \<noteq> [] \<and> fields' exampleApp \<noteq> []
   \<and> snd (fst (startExtraction exampleId exampleExtract exampleApp 0)) = Fulfilled
   \<and> length (results (fst (fst (startExtraction exampleId exampleExtract exampleApp 0)))) = 3
   \<and> map fileName (results (fst (fst (startExtraction exampleId exampleExtract exampleApp 0))))
       = [''a.pdf'', ''bad.pdf'', ''c.pdf'']
   \<and> map status (results (fst (fst (startExtraction exampleId exampleExtract exampleApp 0))))
       = [Success, Error, Success]
   \<and> status' (fst (fst (startExtraction exampleId exampleExtract exampleApp 0))) = Completed"
proof -
  have ne: "files exampleApp \<noteq> []" "fields' exampleApp \<noteq> []"
    by (simp_all add: exampleApp_def)
  have nn: "Inl ThrownNullish \<notin> set (fst (outcomes exampleExtract (files exampleApp)
              (fields' exampleApp) (snd (initialResults exampleId (files exampleApp) 0))))"
    by (simp add: exampleApp_def exampleId_def exampleExtract_def pdf_def)
  have fin: "snd (fst (startExtraction exampleId exampleExtract exampleApp 0)) = Fulfilled"
    by (simp add: startExtraction_closed [OF ne nn])
  have ev: "map status (results (fst (fst (startExtraction exampleId exampleExtract exampleApp 0))))
              = [Success, Error, Success]"
    by (simp add: startExtraction_closed [OF ne nn])
       (simp add: exampleApp_def exampleId_def exampleExtract_def pdf_def settledItem_def commit_def)
  show ?thesis
    using run_fills_store [OF ne fin] ne fin ev
    by (simp add: exampleApp_def pdf_def)
qed

text \<open>
  C5.  The service throws \<^verbatim>\<open>null\<close> for the second of three documents.  The catch
  block fails on reading the message: nothing is committed, the promise of the run is
  rejected, the second item stays \<open>Processing\<close>, the third stays \<open>Pending\<close> and is
  never attempted, and the batch stays \<open>Extracting\<close>.
\<close>

theorem null_rejection_stops_run:
  "fst (outcomes nullExtract (files exampleApp) (fields' exampleApp)
          (snd (initialResults exampleId (files exampleApp) 0))) ! 1 = Inl ThrownNullish
   \<and> snd (fst (startExtraction exampleId nullExtract exampleApp 0)) = Rejected TypeError
   \<and> map fileName (results (fst (fst (startExtraction exampleId nullExtract exampleApp 0))))
       = [''a.pdf'', ''bad.pdf'', ''c.pdf'']
   \<and> map status (results (fst (fst (startExtraction exampleId nullExtract exampleApp 0))))
       = [Success, Processing, Pending]
   \<and> map error (results (fst (fst (startExtraction exampleId nullExtract exampleApp 0))))
       = [None, None, None]
   \<and> status' (fst (fst (startExtraction exampleId nullExtract exampleApp 0))) = Extracting"
  by (simp add: startExtraction_def startExtraction_begin_def loopHead_def drive.simps
        resume_def commit_def Let_def exampleApp_def exampleId_def nullExtract_def pdf_def)

text \<open>What holds of a failure when no call of the batch throws null or undefined: the
  item of the failing document is its initial item with status \<open>Error\<close> and the message
  of what was thrown (or the text \<^verbatim>\<open>Extraction failed\<close> when that message is missing or
  falsy), its data unset, and every other item is its initial item committed with the
  outcome of its own call.\<close>

lemma object_failure_is_isolated:
  assumes "files s \<noteq> []" and "fields' s \<noteq> []" and "k < length (files s)"
    and "Inl ThrownNullish \<notin> set (fst (outcomes ex (files s) (fields' s)
                                          (snd (initialResults gen (files s) w))))"
    and "fst (outcomes ex (files s) (fields' s) (snd (initialResults gen (files s) w))) ! k
           = Inl (Thrown m)"
  shows "results (fst (fst (startExtraction gen ex s w))) ! k
           = (fst (initialResults gen (files s) w) ! k)
               \<lparr>status := Error, error := Some (errorMessage m)\<rparr>
       \<and> data (results (fst (fst (startExtraction gen ex s w))) ! k) = None
       \<and> length (results (fst (fst (startExtraction gen ex s w)))) = length (files s)
       \<and> (\<forall>j < length (files s). j \<noteq> k \<longrightarrow>
             commit (fst (initialResults gen (files s) w) ! j)
                   (fst (outcomes ex (files s) (fields' s)
                           (snd (initialResults gen (files s) w))) ! j)
               = Inr (results (fst (fst (startExtraction gen ex s w))) ! j))"
proof -
  let ?ini = "fst (initialResults gen (files s) w)"
  let ?outs = "fst (outcomes ex (files s) (fields' s) (snd (initialResults gen (files s) w)))"
  have res: "results (fst (fst (startExtraction gen ex s w))) = map2 settledItem ?ini ?outs"
    by (simp add: startExtraction_closed [OF assms(1,2,4)])
  have len: "length ?ini = length (files s)" "length ?outs = length (files s)"
    by (simp_all add: initialResults_length outcomes_length)
  have nth: "\<And>j. j < length (files s) \<Longrightarrow>
               map2 settledItem ?ini ?outs ! j = settledItem (?ini ! j) (?outs ! j)"
    using len by simp
  have cm: "commit (?ini ! j) (?outs ! j) = Inr (map2 settledItem ?ini ?outs ! j)"
    if "j < length (files s)" for j
  proof -
    have "?outs ! j \<noteq> Inl ThrownNullish"
      using assms(4) that len by (metis nth_mem)
    then show ?thesis
      using nth [OF that] by (simp add: commit_settled)
  qed
  have "?ini ! k \<in> set ?ini"
    using assms(3) len by simp
  then have ini: "data (?ini ! k) = None"
    using initialResults_pending [of "?ini ! k" gen "files s" w] by simp
  have k: "map2 settledItem ?ini ?outs ! k = (?ini ! k)\<lparr>status := Error, error := Some (errorMessage m)\<rparr>"
    using nth [OF assms(3)] assms(5) by (simp add: settledItem_def commit_def)
  show ?thesis
    unfolding res using k ini cm len by simp
qed

text \<open>
  C8 (amended).  With an empty document list or an empty field list the run returns at
  its guard: no identifier is drawn, no extraction is called, nothing is raised, and
  the state (store, status, selection, tab) is what it was.
\<close>

theorem guard_returns_silently:
  "files s = [] \<or> fields' s = [] \<Longrightarrow> startExtraction gen ex s w = ((s, Fulfilled), w)"
  by (rule startExtraction_guard)

theorem guard_returns_silently_witness:
  "(files emptiedApp = [] \<or> fields' emptiedApp = [])
   \<and> startExtraction exampleId exampleExtract emptiedApp 0 = ((emptiedApp, Fulfilled), 0)"
proof -
  have h: "files emptiedApp = [] \<or> fields' emptiedApp = []"
    by (simp add: emptiedApp_def)
  show ?thesis
    using guard_returns_silently [OF h, of exampleId exampleExtract 0] h by simp
qed

text \<open>Three files and no field: nothing fails, nothing changes.\<close>

theorem guard_returns_silently_counterexample:
  "fields' (exampleApp\<lparr>fields' := []\<rparr>) = []
   \<and> startExtraction exampleId exampleExtract (exampleApp\<lparr>fields' := []\<rparr>) 0
       = ((exampleApp\<lparr>fields' := []\<rparr>, Fulfilled), 0)
   \<and> status' (fst (fst (startExtraction exampleId exampleExtract (exampleApp\<lparr>fields' := []\<rparr>) 0))) = Idle
   \<and> results (fst (fst (startExtraction exampleId exampleExtract (exampleApp\<lparr>fields' := []\<rparr>) 0))) = []"
  by (simp add: startExtraction_def startExtraction_begin_def exampleApp_def)




section \<open>Properties of objects\<close>

lemma map_of_replaceProp:
  "map_of (replaceProp k v ob) f = (if f = k \<and> map_of ob k \<noteq> None then Some v else map_of ob f)"
  by (induction ob) auto

lemma map_of_insertIndex:
  "map_of ob k = None \<Longrightarrow> map_of (insertIndex k v ob) f = (if f = k then Some v else map_of ob f)"
  by (induction ob) (auto split: if_splits)

lemma getProp_setProp:
  "getProp (setProp ob k v) f = (if f = k then Some v else getProp ob f)"
proof (cases "map_of ob k")
  case None
  then have "k \<notin> fst ` set ob" by (simp add: map_of_eq_None_iff)
  then show ?thesis
    using None by (simp add: getProp_def setProp_def map_of_insertIndex map_add_def split: option.splits)
next
  case (Some x)
  then have "k \<in> fst ` set ob" by (metis map_of_eq_None_iff option.distinct(1))
  then show ?thesis
    using Some by (simp add: getProp_def setProp_def map_of_replaceProp)
qed

lemma keys_replaceProp: "map fst (replaceProp k v ob) = map fst ob"
  by (induction ob) auto

lemma keys_insertIndex: "set (map fst (insertIndex k v ob)) = insert k (set (map fst ob))"
proof (induction ob)
  case Nil
  then show ?case by simp
next
  case (Cons e ob)
  obtain k' v' where e: "e = (k', v')" by (cases e)
  show ?case
    using Cons.IH unfolding e by (cases "isArrayIndex k' \<and> numberOf k' < numberOf k") auto
qed

lemma distinct_insertIndex:
  "k \<notin> set (map fst ob) \<Longrightarrow> distinct (map fst ob) \<Longrightarrow> distinct (map fst (insertIndex k v ob))"
proof (induction ob)
  case Nil
  then show ?case by simp
next
  case (Cons e ob)
  have "fst e \<notin> set (map fst (insertIndex k v ob))"
    using Cons.prems unfolding keys_insertIndex by auto
  then show ?case
    using Cons by (cases e) auto
qed

lemma keys_setProp: "set (map fst (setProp ob k v)) = insert k (set (map fst ob))"
proof (cases "k \<in> fst ` set ob")
  case True
  then show ?thesis
    unfolding setProp_def by (simp only: if_True keys_replaceProp) auto
next
  case False
  then show ?thesis
    unfolding setProp_def using keys_insertIndex [of k v ob] by (cases "isArrayIndex k") auto
qed

lemma distinct_setProp:
  "distinct (map fst ob) \<Longrightarrow> distinct (map fst (setProp ob k v))"
proof (cases "k \<in> fst ` set ob")
  case True
  assume "distinct (map fst ob)"
  then show ?thesis
    using True unfolding setProp_def by (simp only: if_True keys_replaceProp)
next
  case False
  assume "distinct (map fst ob)"
  then show ?thesis
    using False distinct_insertIndex [of k ob v] unfolding setProp_def
    by (cases "isArrayIndex k") auto
qed

lemma getProp_spread:
  "distinct (map fst b) \<Longrightarrow>
   getProp (spread a b) f = (case map_of b f of Some v \<Rightarrow> Some v | None \<Rightarrow> getProp a f)"
proof (induction b arbitrary: a)
  case Nil
  then show ?case by (simp add: spread_def)
next
  case (Cons e b)
  obtain k v where e: "e = (k, v)" by (cases e)
  have sp: "spread a ((k, v) # b) = spread (setProp a k v) b"
    by (simp add: spread_def)
  have "k \<notin> fst ` set b" using Cons.prems e by auto
  then have none: "map_of b k = None" by (simp add: map_of_eq_None_iff)
  have ih: "getProp (spread (setProp a k v) b) f
              = (case map_of b f of Some v \<Rightarrow> Some v | None \<Rightarrow> getProp (setProp a k v) f)"
    using Cons.IH [of "setProp a k v"] Cons.prems by simp
  show ?case
    unfolding e sp ih using none by (simp add: getProp_setProp split: option.splits)
qed

lemma getProp_copy: "distinct (map fst d) \<Longrightarrow> getProp (spread [] d) f = getProp d f"
  by (simp add: getProp_spread) (simp add: getProp_def split: option.splits)

section \<open>Properties of the handlers\<close>

text \<open>
  C9.  In a store whose data objects have pairwise distinct keys, the edit keeps the
  number and order of the items and the identifier, file name, status and error of
  each; an item with another identifier or without data is unchanged; and in the data
  of an item it applies to, the named field holds the new value and every other field
  reads as before.
\<close>

theorem edit_changes_one_field:
  assumes "\<forall>it \<in> set prev. \<forall>d. data it = Some d \<longrightarrow> distinct (map fst d)"
  shows "length (handleDataUpdate i field value prev) = length prev
       \<and> (\<forall>j < length prev.
            id' (handleDataUpdate i field value prev ! j) = id' (prev ! j)
          \<and> fileName (handleDataUpdate i field value prev ! j) = fileName (prev ! j)
          \<and> status (handleDataUpdate i field value prev ! j) = status (prev ! j)
          \<and> error (handleDataUpdate i field value prev ! j) = error (prev ! j)
          \<and> (id' (prev ! j) \<noteq> i \<or> data (prev ! j) = None \<longrightarrow>
               handleDataUpdate i field value prev ! j = prev ! j)
          \<and> (\<forall>d. id' (prev ! j) = i \<and> data (prev ! j) = Some d \<longrightarrow>
               (\<exists>d'. data (handleDataUpdate i field value prev ! j) = Some d'
                    \<and> getProp d' field = Some (JStr value)
                    \<and> (\<forall>f. f \<noteq> field \<longrightarrow> getProp d' f = getProp d f))))"
proof (intro conjI allI impI)
  show "length (handleDataUpdate i field value prev) = length prev"
    by (simp add: handleDataUpdate_def)
next
  fix j assume j: "j < length prev"
  show "id' (handleDataUpdate i field value prev ! j) = id' (prev ! j)"
    using j by (simp add: handleDataUpdate_def split: option.splits)
  show "fileName (handleDataUpdate i field value prev ! j) = fileName (prev ! j)"
    using j by (simp add: handleDataUpdate_def split: option.splits)
  show "status (handleDataUpdate i field value prev ! j) = status (prev ! j)"
    using j by (simp add: handleDataUpdate_def split: option.splits)
  show "error (handleDataUpdate i field value prev ! j) = error (prev ! j)"
    using j by (simp add: handleDataUpdate_def split: option.splits)
  show "handleDataUpdate i field value prev ! j = prev ! j"
    if "id' (prev ! j) \<noteq> i \<or> data (prev ! j) = None"
    using j that by (auto simp: handleDataUpdate_def split: option.splits)
  show "\<exists>d'. data (handleDataUpdate i field value prev ! j) = Some d'
             \<and> getProp d' field = Some (JStr value)
             \<and> (\<forall>f. f \<noteq> field \<longrightarrow> getProp d' f = getProp d f)"
    if "id' (prev ! j) = i \<and> data (prev ! j) = Some d" for d
  proof -
    have "distinct (map fst d)"
      using assms j that nth_mem by blast
    then show ?thesis
      using j that by (simp add: handleDataUpdate_def getProp_setProp getProp_copy)
  qed
qed

theorem edit_changes_one_field_witness:
  "length (handleDataUpdate ''x'' ''Date'' ''2024-01-01'' exampleStore) = length exampleStore
   \<and> status (handleDataUpdate ''x'' ''Date'' ''2024-01-01'' exampleStore ! 0) = Success
   \<and> data (handleDataUpdate ''x'' ''Date'' ''2024-01-01'' exampleStore ! 0)
       = Some [(''Customer'', JStr ''Acme''), (''Date'', JStr ''2024-01-01'')]
   \<and> handleDataUpdate ''x'' ''Date'' ''2024-01-01'' exampleStore ! 1 = exampleStore ! 1
   \<and> handleDataUpdate ''x'' ''Date'' ''2024-01-01'' exampleStore ! 2 = exampleStore ! 2"
proof -
  have h: "\<forall>it \<in> set exampleStore. \<forall>d. data it = Some d \<longrightarrow> distinct (map fst d)"
    by (auto simp: exampleStore_def success_def)
  have l: "(0::nat) < length exampleStore" "(1::nat) < length exampleStore"
          "(2::nat) < length exampleStore"
    by (simp_all add: exampleStore_def)
  have other: "id' (exampleStore ! 1) \<noteq> ''x'' \<or> data (exampleStore ! 1) = None"
              "id' (exampleStore ! 2) \<noteq> ''x'' \<or> data (exampleStore ! 2) = None"
    by (simp_all add: exampleStore_def success_def)
  have ev: "data (handleDataUpdate ''x'' ''Date'' ''2024-01-01'' exampleStore ! 0)
       = Some [(''Customer'', JStr ''Acme''), (''Date'', JStr ''2024-01-01'')]"
    by (simp add: handleDataUpdate_def exampleStore_def success_def spread_def setProp_def
          isArrayIndex_def isDigit_def)
  from edit_changes_one_field [OF h, of "''x''" "''Date''" "''2024-01-01''"]
  have "length (handleDataUpdate ''x'' ''Date'' ''2024-01-01'' exampleStore) = length exampleStore"
    and "status (handleDataUpdate ''x'' ''Date'' ''2024-01-01'' exampleStore ! 0)
           = status (exampleStore ! 0)"
    and "handleDataUpdate ''x'' ''Date'' ''2024-01-01'' exampleStore ! 1 = exampleStore ! 1"
    and "handleDataUpdate ''x'' ''Date'' ''2024-01-01'' exampleStore ! 2 = exampleStore ! 2"
    using l other by blast+
  then show ?thesis
    using ev by (simp add: exampleStore_def success_def)
qed

text \<open>
  C10.  \<^verbatim>\<open>handleFilesSelected\<close> compares the incoming files with the names already in
  the list only: a file named like one of the list is skipped, but two incoming files of
  one new name both pass, the list then holds the name twice, and the run makes one
  item for each.
\<close>

theorem added_files_keep_duplicate_names:
  "map name (files (handleFilesSelected
       [\<lparr>name = ''a.pdf'', content = [1]\<rparr>, \<lparr>name = ''a.pdf'', content = [2]\<rparr>] firstBatch))
     = [''a.pdf'']
   \<and> map name (files (handleFilesSelected
       [\<lparr>name = ''b.pdf'', content = [1]\<rparr>, \<lparr>name = ''b.pdf'', content = [2]\<rparr>] firstBatch))
     = [''a.pdf'', ''b.pdf'', ''b.pdf'']
   \<and> map fileName (results (fst (fst (startExtraction exampleId exampleExtract
         (handleFilesSelected
            [\<lparr>name = ''b.pdf'', content = [1]\<rparr>, \<lparr>name = ''b.pdf'', content = [2]\<rparr>] firstBatch) 0))))
     = [''a.pdf'', ''b.pdf'', ''b.pdf'']"
proof -
  let ?s = "handleFilesSelected
              [\<lparr>name = ''b.pdf'', content = [1]\<rparr>, \<lparr>name = ''b.pdf'', content = [2]\<rparr>] firstBatch"
  have ne: "files ?s \<noteq> []" "fields' ?s \<noteq> []"
    by (simp_all add: handleFilesSelected_def firstBatch_def pdf_def Let_def)
  have nn: "Inl ThrownNullish \<notin> set (fst (outcomes exampleExtract (files ?s) (fields' ?s)
                                            (snd (initialResults exampleId (files ?s) 0))))"
    by (simp add: handleFilesSelected_def firstBatch_def pdf_def Let_def exampleId_def
          exampleExtract_def)
  have "map fileName (results (fst (fst (startExtraction exampleId exampleExtract ?s 0))))
          = map name (files ?s)"
    by (rule startExtraction_fileNames [OF ne nn])
  then show ?thesis
    by (simp add: handleFilesSelected_def firstBatch_def pdf_def Let_def)
qed

text \<open>What the filter does give: names that are distinct in the list and distinct among
  the incoming files stay distinct.\<close>

lemma added_files_distinct:
  assumes "distinct (map name (files s))" and "distinct (map name newFiles)"
  shows "distinct (map name (files (handleFilesSelected newFiles s)))"
proof -
  let ?new = "filter (\<lambda>f. name f \<notin> set (map name (files s))) newFiles"
  have "set (map name (files s)) \<inter> set (map name ?new) = {}"
    by (auto simp: image_iff)
  moreover have "distinct (map name ?new)"
    using assms(2) by (rule distinct_map_filter)
  ultimately show ?thesis
    using assms(1) by (simp add: handleFilesSelected_def Let_def)
qed

section \<open>Properties of role resolution\<close>

lemma char_eq_char_of_iff: "c = char_of (n::nat) \<longleftrightarrow> take_bit 8 n = of_char c"
  using char_of_eq_iff [of n c] by auto

lemmas string_eval = toLowerCase_def lowerChar_def canonicalize_def char_of_eq_iff
  char_eq_char_of_iff

text \<open>
  What \<^verbatim>\<open>findField\<close> computes: the first field, in the order of the field list, whose
  lower-cased name matches at least one of the patterns, and nothing when no field
  matches; the order of the patterns has no effect on the result.
\<close>

lemma findField_first_match:
  "(findField flds ps = None \<longleftrightarrow>
      (\<forall>f \<in> set flds. \<not> (\<exists>p \<in> set ps. test p (toLowerCase f))))
   \<and> (\<forall>f. findField flds ps = Some f \<longleftrightarrow>
        (\<exists>i < length flds. flds ! i = f
            \<and> (\<exists>p \<in> set ps. test p (toLowerCase f))
            \<and> (\<forall>j < i. \<not> (\<exists>p \<in> set ps. test p (toLowerCase (flds ! j))))))
   \<and> (set ps = set ps' \<longrightarrow> findField flds ps = findField flds ps')"
proof (intro conjI allI impI)
  show "findField flds ps = None \<longleftrightarrow>
      (\<forall>f \<in> set flds. \<not> (\<exists>p \<in> set ps. test p (toLowerCase f)))"
    unfolding findField_def find_None_iff list_ex_iff by blast
  show "findField flds ps = Some f \<longleftrightarrow>
        (\<exists>i < length flds. flds ! i = f
            \<and> (\<exists>p \<in> set ps. test p (toLowerCase f))
            \<and> (\<forall>j < i. \<not> (\<exists>p \<in> set ps. test p (toLowerCase (flds ! j)))))" for f
    unfolding findField_def find_Some_iff list_ex_iff by auto
  show "findField flds ps = findField flds ps'" if "set ps = set ps'"
    using that by (simp add: findField_def list_ex_iff)
qed

text \<open>The Customer role falls back to the first field when no field matches.\<close>

lemma customerField_fallback:
  "findField flds customerPatterns = None \<Longrightarrow>
   customerField flds = (case flds of [] \<Rightarrow> None | f # _ \<Rightarrow> Some f)"
  by (simp add: customerField_def orElse_def)

text \<open>
  C2.  On the field list of the application's own template \<^verbatim>\<open>job_invoice\<close> the field
  \<^verbatim>\<open>Grand Total\<close> matches the first pattern of the grand-total role and the earlier
  field \<^verbatim>\<open>Advance Total\<close> only the third; the role resolves to \<^verbatim>\<open>Advance Total\<close>,
  the field the advance role resolves to as well.  On the list \<^verbatim>\<open>File Name\<close>,
  \<^verbatim>\<open>Customer\<close> the Customer role resolves to \<^verbatim>\<open>File Name\<close>, which matches only
  the second pattern of the role.
\<close>

theorem earlier_field_beats_first_pattern:
  "test (RegExp ''grand total'') (toLowerCase ''Grand Total'')
   \<and> \<not> test (RegExp ''grand total'') (toLowerCase ''Advance Total'')
   \<and> \<not> test (RegExp ''total amount'') (toLowerCase ''Advance Total'')
   \<and> test (RegExp ''total'') (toLowerCase ''Advance Total'')
   \<and> grandTotalRole (resolveRoles jobInvoiceTemplate) = Some ''Advance Total''
   \<and> advanceRole (resolveRoles jobInvoiceTemplate) = Some ''Advance Total''
   \<and> test (RegExp ''customer'') (toLowerCase ''Customer'')
   \<and> \<not> test (RegExp ''customer'') (toLowerCase ''File Name'')
   \<and> test (RegExp ''name'') (toLowerCase ''File Name'')
   \<and> customerRole (resolveRoles [''File Name'', ''Customer'']) = Some ''File Name''"
  by (simp add: resolveRoles_def customerField_def orElse_def findField_def
        customerPatterns_def advancePatterns_def grandTotalPatterns_def jobInvoiceTemplate_def
        string_eval)

section \<open>Properties of the export\<close>

lemma spread_plain:
  "distinct (map fst d) \<Longrightarrow> set (map fst d) \<inter> set (map fst a) = {} \<Longrightarrow>
   list_all (\<lambda>k. \<not> isArrayIndex k) (map fst d) \<Longrightarrow> spread a d = a @ d"
proof (induction d arbitrary: a)
  case Nil
  then show ?case by (simp add: spread_def)
next
  case (Cons e d)
  obtain k v where e: "e = (k, v)" by (cases e)
  have new: "k \<notin> fst ` set a" and plain: "\<not> isArrayIndex k"
    using Cons.prems e by auto
  have step: "spread a ((k, v) # d) = spread (a @ [(k, v)]) d"
    using new plain by (simp add: spread_def setProp_def)
  have "spread (a @ [(k, v)]) d = (a @ [(k, v)]) @ d"
    using Cons.prems e by (intro Cons.IH) auto
  then show ?case
    unfolding e step by simp
qed

lemma exportRow_plain:
  "plainKeys (dataOf item) \<Longrightarrow> exportRow item = (''FileName'', JStr (fileName item)) # dataOf item"
  unfolding exportRow_def plainKeys_def
  by (subst spread_plain) (auto simp: list_all_iff)

lemma addKey_Cons:
  "x \<notin> set ks \<Longrightarrow>
   foldl (\<lambda>h k. if k \<in> set h then h else h @ [k]) (x # h) ks
     = x # foldl (\<lambda>h k. if k \<in> set h then h else h @ [k]) h ks"
  by (induction ks arbitrary: h) auto

lemma header_step:
  assumes "list_all (\<lambda>d. ''FileName'' \<notin> set (map fst d)) ds"
  shows "foldl (\<lambda>h r. foldl (\<lambda>h k. if k \<in> set h then h else h @ [k]) h (map fst r))
           (''FileName'' # h) (map2 (\<lambda>v d. (''FileName'', v) # d) vs ds)
       = ''FileName'' # foldl (\<lambda>h r. foldl (\<lambda>h k. if k \<in> set h then h else h @ [k]) h (map fst r))
           h (take (length vs) ds)"
  using assms
proof (induction ds arbitrary: h vs)
  case Nil
  then show ?case by simp
next
  case (Cons d ds)
  show ?case
  proof (cases vs)
    case Nil
    then show ?thesis by simp
  next
    case (Cons v vs')
    have nf: "''FileName'' \<notin> set (map fst d)" and rest: "list_all (\<lambda>d. ''FileName'' \<notin> set (map fst d)) ds"
      using Cons.prems by simp_all
    show ?thesis
      unfolding Cons using Cons.IH [OF rest] addKey_Cons [OF nf] by simp
  qed
qed

lemma headerOf_rows:
  assumes "list_all (\<lambda>d. ''FileName'' \<notin> set (map fst d)) ds" and "length vs = length ds" and "ds \<noteq> []"
  shows "headerOf (map2 (\<lambda>v d. (''FileName'', v) # d) vs ds) = ''FileName'' # headerOf ds"
proof -
  obtain d ds' v vs' where ds: "ds = d # ds'" and vs: "vs = v # vs'"
    using assms(2,3) by (cases ds; cases vs) auto
  have nf: "''FileName'' \<notin> set (map fst d)" and rest: "list_all (\<lambda>d. ''FileName'' \<notin> set (map fst d)) ds'"
    using assms(1) ds by simp_all
  have len: "length vs' = length ds'" using assms(2) ds vs by simp
  show ?thesis
    unfolding headerOf_def ds vs
    using header_step [OF rest, of _ vs'] addKey_Cons [OF nf, of "[]"] len by simp
qed


lemma exportRows_plain:
  assumes "\<forall>item \<in> set its. plainKeys (dataOf item)"
  shows "map exportRow its
         = map2 (\<lambda>v d. (''FileName'', v) # d) (map (\<lambda>item. JStr (fileName item)) its) (map dataOf its)"
  using assms by (induction its) (simp_all add: exportRow_plain)

text \<open>
  C7 (amended).  The export refuses with an alert exactly when no item qualifies.
  Otherwise it writes one sheet with one row per qualifying item, in store order; when
  the data objects of these items have distinct keys, none an array index or the name
  \<^verbatim>\<open>FileName\<close>, the first column is \<^verbatim>\<open>FileName\<close> and holds the file names, and the
  remaining columns are the keys of the data objects in the order of their first
  appearance.  The field list plays no part.
\<close>

theorem export_columns_follow_data:
  "(exportToExcel dat sel fn = Alert ''No data available to export.''
      \<longleftrightarrow> filter (isExportable sel) dat = [])
   \<and> (filter (isExportable sel) dat \<noteq> [] \<longrightarrow>
        (\<exists>sheet. exportToExcel dat sel fn = WriteFile fn ''Extracted Data'' sheet
           \<and> length (body sheet) = length (filter (isExportable sel) dat)
           \<and> ((\<forall>item \<in> set (filter (isExportable sel) dat). plainKeys (dataOf item)) \<longrightarrow>
                header sheet = ''FileName'' # headerOf (map dataOf (filter (isExportable sel) dat))
              \<and> map hd (body sheet)
                  = map (\<lambda>item. Some (JStr (fileName item))) (filter (isExportable sel) dat))))"
proof (intro conjI impI)
  show "exportToExcel dat sel fn = Alert ''No data available to export.''
      \<longleftrightarrow> filter (isExportable sel) dat = []"
    by (simp add: exportToExcel_def exportableData_def)
next
  let ?its = "filter (isExportable sel) dat"
  let ?sheet = "json_to_sheet (exportableData dat sel)"
  assume ne: "?its \<noteq> []"
  have w: "exportToExcel dat sel fn = WriteFile fn ''Extracted Data'' ?sheet"
    using ne by (simp add: exportToExcel_def exportableData_def)
  have len: "length (body ?sheet) = length ?its"
    by (simp add: json_to_sheet_def exportableData_def)
  have cols: "header ?sheet = ''FileName'' # headerOf (map dataOf ?its)
      \<and> map hd (body ?sheet) = map (\<lambda>item. Some (JStr (fileName item))) ?its"
    if plain: "\<forall>item \<in> set ?its. plainKeys (dataOf item)"
  proof -
    have nf: "list_all (\<lambda>d. ''FileName'' \<notin> set (map fst d)) (map dataOf ?its)"
      using plain by (fastforce simp: list_all_iff plainKeys_def)
    have rows: "exportableData dat sel
         = map2 (\<lambda>v d. (''FileName'', v) # d) (map (\<lambda>item. JStr (fileName item)) ?its) (map dataOf ?its)"
      unfolding exportableData_def by (rule exportRows_plain [OF plain])
    have hdr: "headerOf (exportableData dat sel) = ''FileName'' # headerOf (map dataOf ?its)"
      unfolding rows using ne by (intro headerOf_rows [OF nf]) simp_all
    have "map hd (body ?sheet) = map (\<lambda>item. Some (JStr (fileName item))) ?its"
      unfolding json_to_sheet_def hdr
      using plain by (simp add: exportableData_def exportRow_plain cellOf_def getProp_def)
    then show ?thesis
      by (simp add: json_to_sheet_def hdr)
  qed
  show "\<exists>sheet. exportToExcel dat sel fn = WriteFile fn ''Extracted Data'' sheet
           \<and> length (body sheet) = length ?its
           \<and> ((\<forall>item \<in> set ?its. plainKeys (dataOf item)) \<longrightarrow>
                header sheet = ''FileName'' # headerOf (map dataOf ?its)
              \<and> map hd (body sheet) = map (\<lambda>item. Some (JStr (fileName item))) ?its)"
    using w len cols by blast
qed

theorem export_columns_follow_data_witness:
  "filter (isExportable None) exampleStore \<noteq> []
   \<and> list_all (\<lambda>item. plainKeys (dataOf item)) (filter (isExportable None) exampleStore)
   \<and> exportToExcel exampleStore None ''all.xlsx''
       = WriteFile ''all.xlsx'' ''Extracted Data'' (json_to_sheet (exportableData exampleStore None))
   \<and> header (json_to_sheet (exportableData exampleStore None)) = [''FileName'', ''Customer'', ''Date'']
   \<and> filter (isExportable (Some {})) exampleStore = []
   \<and> exportToExcel exampleStore (Some {}) ''sel.xlsx'' = Alert ''No data available to export.''"
proof -
  let ?its = "filter (isExportable None) exampleStore"
  have ne: "?its \<noteq> []"
    by (simp add: exampleStore_def success_def isExportable_def)
  have none: "filter (isExportable (Some {})) exampleStore = []"
    by (simp add: exampleStore_def success_def isExportable_def)
  have plain: "list_all (\<lambda>item. plainKeys (dataOf item)) ?its"
    by (simp add: exampleStore_def success_def isExportable_def dataOf_def plainKeys_def
          isArrayIndex_def isDigit_def)
  have w: "exportToExcel exampleStore None ''all.xlsx''
       = WriteFile ''all.xlsx'' ''Extracted Data'' (json_to_sheet (exportableData exampleStore None))"
    using ne by (simp add: exportToExcel_def exportableData_def)
  have hv: "headerOf (map dataOf ?its) = [''Customer'', ''Date'']"
    by (simp add: exampleStore_def success_def isExportable_def dataOf_def headerOf_def)
  from export_columns_follow_data [of exampleStore None "''all.xlsx''"] ne plain
  obtain sheet where s1: "exportToExcel exampleStore None ''all.xlsx''
                            = WriteFile ''all.xlsx'' ''Extracted Data'' sheet"
    and s2: "header sheet = ''FileName'' # headerOf (map dataOf ?its)"
    unfolding list_all_iff by blast
  from s1 w have "sheet = json_to_sheet (exportableData exampleStore None)"
    by simp
  then have h: "header (json_to_sheet (exportableData exampleStore None))
                  = [''FileName'', ''Customer'', ''Date'']"
    using s2 hv by simp
  have a: "exportToExcel exampleStore (Some {}) ''sel.xlsx'' = Alert ''No data available to export.''"
    using export_columns_follow_data [of exampleStore "Some {}" "''sel.xlsx''"] none by blast
  show ?thesis
    using ne plain w h none a by blast
qed

text \<open>The field list is \<^verbatim>\<open>Date\<close>, \<^verbatim>\<open>Total\<close>; the columns after the first are
  \<^verbatim>\<open>Total\<close>, \<^verbatim>\<open>Date\<close>, the order of the keys in the item's data.\<close>

theorem export_columns_follow_data_counterexample:
  "fields' reorderedApp = [''Date'', ''Total'']
   \<and> handleExportAll reorderedApp
       = WriteFile ''all_extracted_data.xlsx'' ''Extracted Data''
           \<lparr>header = [''FileName'', ''Total'', ''Date''],
            body = [[Some (JStr ''a.pdf''), Some (JStr ''5''), Some (JStr ''2024-01-01'')]]\<rparr>
   \<and> handleExport reorderedApp
       = WriteFile ''extracted_data.xlsx'' ''Extracted Data''
           \<lparr>header = [''FileName'', ''Total'', ''Date''],
            body = [[Some (JStr ''a.pdf''), Some (JStr ''5''), Some (JStr ''2024-01-01'')]]\<rparr>"
  by (simp add: handleExportAll_def handleExport_def exportToExcel_def exportableData_def
        exportRow_def dataOf_def isExportable_def json_to_sheet_def headerOf_def cellOf_def getProp_def
        spread_def setProp_def isArrayIndex_def isDigit_def reorderedApp_def success_def)


section \<open>Properties of the grouping engine\<close>

lemma set_replaceProp:
  "distinct (map fst G) \<Longrightarrow> k \<in> fst ` set G \<Longrightarrow>
   set (replaceProp k v G) = insert (k, v) {e \<in> set G. fst e \<noteq> k}"
proof (induction G)
  case Nil
  then show ?case by simp
next
  case (Cons e G)
  obtain k' v' where e: "e = (k', v')" by (cases e)
  show ?case
  proof (cases "k' = k")
    case True
    have "k \<notin> fst ` set G" using Cons.prems(1) e True by simp
    then have R: "{x \<in> set ((k, v') # G). fst x \<noteq> k} = set G"
      by (auto simp: image_iff)
    have L: "replaceProp k v ((k, v') # G) = (k, v) # G" by simp
    show ?thesis
      unfolding e True L R by simp
  next
    case False
    then have "k \<in> fst ` set G" using Cons.prems(2) e by auto
    then have ih: "set (replaceProp k v G) = insert (k, v) {x \<in> set G. fst x \<noteq> k}"
      using Cons.IH Cons.prems(1) by simp
    have R: "{x \<in> set ((k', v') # G). fst x \<noteq> k} = insert (k', v') {x \<in> set G. fst x \<noteq> k}"
      using False by auto
    have L: "replaceProp k v ((k', v') # G) = (k', v') # replaceProp k v G"
      using False by simp
    show ?thesis
      unfolding e L R by (simp add: ih insert_commute)
  qed
qed

lemma set_insertIndex: "set (insertIndex k v G) = insert (k, v) (set G)"
proof (induction G)
  case Nil
  then show ?case by simp
next
  case (Cons e G)
  obtain k' v' where e: "e = (k', v')" by (cases e)
  show ?case
    using Cons.IH unfolding e by (cases "isArrayIndex k' \<and> numberOf k' < numberOf k") auto
qed

lemma set_setProp:
  assumes "distinct (map fst G)"
  shows "set (setProp G k v) = insert (k, v) {e \<in> set G. fst e \<noteq> k}"
proof (cases "k \<in> fst ` set G")
  case True
  then show ?thesis
    using set_replaceProp [OF assms True] by (simp add: setProp_def)
next
  case False
  then have "{e \<in> set G. fst e \<noteq> k} = set G" by (auto simp: image_iff)
  then show ?thesis
    using False by (simp add: setProp_def set_insertIndex)
qed

lemma forEach_snoc:
  "forEach ro G (its @ [x])
     = (case forEach ro G its of Inl e \<Rightarrow> Inl e | Inr G1 \<Rightarrow> addItem ro G1 x)"
  by (induction its arbitrary: G) (auto split: sum.splits)

lemma addMember_fields:
  "ids' (addMember ro x g) = ids' g @ [id' x]"
  "files' (addMember ro x g) = files' g @ [fileName x]"
  "customerName' (addMember ro x g) = customerName' g"
  by (simp_all add: addMember_def)


lemma addItem_ok:
  assumes d: "distinct (map fst G)"
    and ni: "\<not> inherited (normalizedKey x (customerRole ro))
             \<or> normalizedKey x (customerRole ro) \<in> fst ` set G"
  shows "\<exists>G'. addItem ro G x = Inr G' \<and> distinct (map fst G')
           \<and> set G' = insert (normalizedKey x (customerRole ro),
                               addMember ro x
                                 (case getProp G (normalizedKey x (customerRole ro)) of
                                    Some g \<Rightarrow> g
                                  | None \<Rightarrow> newGroup (customerText x (customerRole ro))))
                         {e \<in> set G. fst e \<noteq> normalizedKey x (customerRole ro)}"
proof (cases "getProp G (normalizedKey x (customerRole ro))")
  case None
  let ?k = "normalizedKey x (customerRole ro)"
  let ?new = "newGroup (customerText x (customerRole ro))"
  let ?G1 = "setProp G ?k ?new"
  have nk: "?k \<notin> fst ` set G"
    using None by (simp add: getProp_def map_of_eq_None_iff)
  then have "\<not> inherited ?k" using ni by simp
  then have r: "addItem ro G x = Inr (setProp ?G1 ?k (addMember ro x ?new))"
    using None by (simp add: addItem_def Let_def)
  have d1: "distinct (map fst ?G1)" by (rule distinct_setProp [OF d])
  have s1: "{e \<in> set ?G1. fst e \<noteq> ?k} = {e \<in> set G. fst e \<noteq> ?k}"
    unfolding set_setProp [OF d] by auto
  have "set (setProp ?G1 ?k (addMember ro x ?new))
          = insert (?k, addMember ro x ?new) {e \<in> set G. fst e \<noteq> ?k}"
    unfolding set_setProp [OF d1] s1 ..
  then show ?thesis
    using r None distinct_setProp [OF d1] by simp
next
  case (Some g)
  let ?k = "normalizedKey x (customerRole ro)"
  have r: "addItem ro G x = Inr (setProp G ?k (addMember ro x g))"
    using Some by (simp add: addItem_def Let_def)
  show ?thesis
    using r Some distinct_setProp [OF d] set_setProp [OF d] by simp
qed


lemma filter_key_empty:
  "k \<notin> K ` set its \<Longrightarrow> filter (\<lambda>it. K it = k) its = []"
  by (auto simp: filter_empty_conv)

lemma filter_key_nonempty:
  "k \<in> K ` set its \<Longrightarrow> filter (\<lambda>it. K it = k) its \<noteq> []"
  by (auto simp: filter_empty_conv)

lemma forEach_groups:
  assumes "\<forall>item \<in> set its. \<not> inherited (normalizedKey item (customerRole ro))"
  shows "\<exists>G. forEach ro [] its = Inr G \<and> distinct (map fst G)
           \<and> fst ` set G = (\<lambda>item. normalizedKey item (customerRole ro)) ` set its
           \<and> (\<forall>k g. (k, g) \<in> set G \<longrightarrow>
                 ids' g = map id' (filter (\<lambda>item. normalizedKey item (customerRole ro) = k) its)
               \<and> files' g = map fileName (filter (\<lambda>item. normalizedKey item (customerRole ro) = k) its)
               \<and> customerName' g
                   = customerText (hd (filter (\<lambda>item. normalizedKey item (customerRole ro) = k) its))
                       (customerRole ro))"
  using assms
proof (induction its rule: rev_induct)
  case Nil
  then show ?case by simp
next
  case (snoc x its)
  let ?K = "\<lambda>item. normalizedKey item (customerRole ro)"
  let ?k = "?K x"
  from snoc obtain G where run: "forEach ro [] its = Inr G" and d: "distinct (map fst G)"
    and keys: "fst ` set G = ?K ` set its"
    and grp: "\<And>k g. (k, g) \<in> set G \<Longrightarrow>
                 ids' g = map id' (filter (\<lambda>item. ?K item = k) its)
               \<and> files' g = map fileName (filter (\<lambda>item. ?K item = k) its)
               \<and> customerName' g = customerText (hd (filter (\<lambda>item. ?K item = k) its)) (customerRole ro)"
    by auto
  let ?g0 = "case getProp G ?k of Some g \<Rightarrow> g | None \<Rightarrow> newGroup (customerText x (customerRole ro))"
  have "\<not> inherited ?k" using snoc.prems by simp
  then obtain G' where add: "addItem ro G x = Inr G'" and d': "distinct (map fst G')"
    and set': "set G' = insert (?k, addMember ro x ?g0) {e \<in> set G. fst e \<noteq> ?k}"
    using addItem_ok [OF d, of x ro] by blast
  have run': "forEach ro [] (its @ [x]) = Inr G'"
    by (simp add: forEach_snoc run add)
  have keys': "fst ` set G' = ?K ` set (its @ [x])"
  proof -
    have "fst ` set G' = insert ?k (fst ` {e \<in> set G. fst e \<noteq> ?k})"
      unfolding set' by simp
    also have "\<dots> = insert ?k (fst ` set G)"
      by (auto simp: image_iff)
    finally show ?thesis
      using keys by simp
  qed
  have g0: "ids' ?g0 = map id' (filter (\<lambda>item. ?K item = ?k) its)
          \<and> files' ?g0 = map fileName (filter (\<lambda>item. ?K item = ?k) its)
          \<and> (filter (\<lambda>item. ?K item = ?k) its \<noteq> [] \<longrightarrow>
               customerName' ?g0 = customerText (hd (filter (\<lambda>item. ?K item = ?k) its)) (customerRole ro))
          \<and> (filter (\<lambda>item. ?K item = ?k) its = [] \<longrightarrow>
               customerName' ?g0 = customerText x (customerRole ro))"
  proof (cases "getProp G ?k")
    case None
    then have "?k \<notin> fst ` set G"
      by (simp add: getProp_def map_of_eq_None_iff)
    then have "filter (\<lambda>item. ?K item = ?k) its = []"
      unfolding keys by (rule filter_key_empty)
    then show ?thesis
      using None by (simp add: newGroup_def)
  next
    case (Some g)
    then have in_G: "(?k, g) \<in> set G"
      by (simp add: getProp_def map_of_SomeD)
    then have "?k \<in> fst ` set G" by (force simp: image_iff)
    then have "filter (\<lambda>item. ?K item = ?k) its \<noteq> []"
      unfolding keys by (rule filter_key_nonempty)
    then show ?thesis
      using Some grp [OF in_G] by simp
  qed
  have grp': "ids' g = map id' (filter (\<lambda>item. ?K item = k) (its @ [x]))
               \<and> files' g = map fileName (filter (\<lambda>item. ?K item = k) (its @ [x]))
               \<and> customerName' g
                   = customerText (hd (filter (\<lambda>item. ?K item = k) (its @ [x]))) (customerRole ro)"
    if mem: "(k, g) \<in> set G'" for k g
  proof (cases "k = ?k")
    case True
    have "(k, g) = (?k, addMember ro x ?g0)"
      using mem True unfolding set' by auto
    then have g: "g = addMember ro x ?g0" by simp
    have f: "filter (\<lambda>item. ?K item = k) (its @ [x]) = filter (\<lambda>item. ?K item = ?k) its @ [x]"
      unfolding True by simp
    show ?thesis
      unfolding f g addMember_fields using g0
      by (cases "filter (\<lambda>item. ?K item = ?k) its") simp_all
  next
    case False
    then have "(k, g) \<in> set G"
      using mem unfolding set' by auto
    moreover have "filter (\<lambda>item. ?K item = k) (its @ [x]) = filter (\<lambda>item. ?K item = k) its"
      using False by simp
    ultimately show ?thesis
      using grp by simp
  qed
  show ?case
    using run' d' keys' grp' by blast
qed


text \<open>
  C3 (amended).  Provided no selected item has a key that names a member of
  \<^verbatim>\<open>Object.prototype\<close>, the summary has exactly one row per key of the selected
  successful items, where the key of an item is its customer value, or the text
  \<^verbatim>\<open>Unknown\<close> when that value is falsy (missing, null, the empty string, zero),
  trimmed and lower-cased.  A row holds the identifiers of all items of its key, in
  store order, counts them, and shows the untrimmed customer text of the first of them.
  Hence two items whose customer values are non-empty strings that differ only by case
  or surrounding white space are in one row.  A value of white space only is not
  replaced: its key is the empty string.
\<close>

theorem groups_by_normalized_customer:
  assumes "\<forall>item \<in> set (selectedItems dat sel).
             \<not> inherited (normalizedKey item (customerField flds))"
  shows "\<exists>rows. summaryRows dat sel flds = Inr rows
           \<and> distinct (map key rows)
           \<and> set (map key rows)
               = (\<lambda>item. normalizedKey item (customerField flds)) ` set (selectedItems dat sel)
           \<and> (\<forall>r \<in> set rows.
                 ids r = map id' (filter (\<lambda>item. normalizedKey item (customerField flds) = key r)
                                    (selectedItems dat sel))
               \<and> fileCount r = length (filter (\<lambda>item. normalizedKey item (customerField flds) = key r)
                                          (selectedItems dat sel))
               \<and> customerName r
                   = customerText (hd (filter (\<lambda>item. normalizedKey item (customerField flds) = key r)
                                         (selectedItems dat sel))) (customerField flds))
           \<and> (\<forall>a \<in> set (selectedItems dat sel). \<forall>b \<in> set (selectedItems dat sel).
                 normalizedKey a (customerField flds) = normalizedKey b (customerField flds) \<longrightarrow>
                 (\<exists>r \<in> set rows. key r = normalizedKey a (customerField flds)
                     \<and> id' a \<in> set (ids r) \<and> id' b \<in> set (ids r)))
           \<and> (\<forall>item. normalizedKey item (customerField flds)
                  = toLowerCase (trim (if truthy (dataProp item (customerField flds))
                                       then String (dataProp item (customerField flds))
                                       else ''Unknown'')))"
proof -
  let ?ro = "resolveRoles flds" and ?its = "selectedItems dat sel"
  let ?K = "\<lambda>item. normalizedKey item (customerField flds)"
  have cr: "customerRole ?ro = customerField flds"
    by (simp add: resolveRoles_def)
  from assms obtain G where run: "forEach ?ro [] ?its = Inr G" and d: "distinct (map fst G)"
    and keys: "fst ` set G = ?K ` set ?its"
    and grp: "\<And>k g. (k, g) \<in> set G \<Longrightarrow>
                 ids' g = map id' (filter (\<lambda>item. ?K item = k) ?its)
               \<and> files' g = map fileName (filter (\<lambda>item. ?K item = k) ?its)
               \<and> customerName' g = customerText (hd (filter (\<lambda>item. ?K item = k) ?its)) (customerField flds)"
    using forEach_groups [of ?its ?ro] unfolding cr by blast
  have rows: "summaryRows dat sel flds = Inr (map toRow G)"
  proof (cases "?its = []")
    case True
    then show ?thesis using run by (simp add: summaryRows_def)
  next
    case False
    then show ?thesis using run by (simp add: summaryRows_def)
  qed
  have k: "map key (map toRow G) = map fst G"
    by (simp add: toRow_def split_beta)
  have each: "ids r = map id' (filter (\<lambda>item. ?K item = key r) ?its)
            \<and> fileCount r = length (filter (\<lambda>item. ?K item = key r) ?its)
            \<and> customerName r = customerText (hd (filter (\<lambda>item. ?K item = key r) ?its)) (customerField flds)"
    if "r \<in> set (map toRow G)" for r
  proof -
    from that obtain k g where mem: "(k, g) \<in> set G" and r: "r = toRow (k, g)"
      by auto
    show ?thesis
      using grp [OF mem] by (simp add: r toRow_def)
  qed
  have norm: "\<forall>item. ?K item = toLowerCase (trim (if truthy (dataProp item (customerField flds))
                                       then String (dataProp item (customerField flds))
                                       else ''Unknown''))"
    by (simp add: normalizedKey_def customerText_def)
  have dist: "distinct (map key (map toRow G))"
    unfolding k by (rule d)
  have ks: "set (map key (map toRow G)) = ?K ` set ?its"
    unfolding k using keys by simp
  have same: "\<exists>r \<in> set (map toRow G). key r = ?K a \<and> id' a \<in> set (ids r) \<and> id' b \<in> set (ids r)"
    if a: "a \<in> set ?its" and b: "b \<in> set ?its" and ab: "?K a = ?K b" for a b
  proof -
    have "?K a \<in> set (map key (map toRow G))"
      unfolding ks using a by simp
    then have "?K a \<in> key ` set (map toRow G)"
      by (simp only: set_map)
    then have "\<exists>r \<in> set (map toRow G). key r = ?K a"
      by (metis imageE)
    then obtain r where r: "r \<in> set (map toRow G)" and kr: "key r = ?K a"
      by (rule bexE)
    have "ids r = map id' (filter (\<lambda>item. ?K item = ?K a) ?its)"
      using each [OF r] kr by simp
    then have "id' a \<in> set (ids r) \<and> id' b \<in> set (ids r)"
      using a b ab by simp
    then show ?thesis
      using r kr by blast
  qed
  show ?thesis
    using rows dist ks each same norm by blast
qed

lemmas grouping_eval = summaryRows_def selectedItems_def success_def resolveRoles_def
  customerField_def orElse_def findField_def customerPatterns_def jobPatterns_def
  advancePatterns_def termsPatterns_def datePatterns_def grandTotalPatterns_def
  addItem_def Let_def normalizedKey_def customerText_def dataProp_def propertyKey_def
  readProp_def getProp_def trim_def isWhiteSpace_def inherited_def setProp_def
  isArrayIndex_def isDigit_def numberOf_def newGroup_def addMember_def addToSet_def
  toRow_def display_def

theorem groups_by_normalized_customer_witness:
  "list_all (\<lambda>item. \<not> inherited (normalizedKey item (customerField [''Customer''])))
     (selectedItems acmeStore {''a'', ''b'', ''c''})
   \<and> summaryRows acmeStore {''a'', ''b'', ''c''} [''Customer'']
       = Inr [\<lparr>key = ''acme corp'', customerName = ''Acme Corp'', jobNos = ''-'',
               advanceTotal = ''-'', paymentTerms = ''-'', invoiceDate = ''-'',
               grandTotal = ''-'', fileCount = 3, ids = [''a'', ''b'', ''c'']\<rparr>]"
proof -
  have h: "\<forall>item \<in> set (selectedItems acmeStore {''a'', ''b'', ''c''}).
             \<not> inherited (normalizedKey item (customerField [''Customer'']))"
    by (simp add: acmeStore_def grouping_eval string_eval)
  have ev: "summaryRows acmeStore {''a'', ''b'', ''c''} [''Customer'']
       = Inr [\<lparr>key = ''acme corp'', customerName = ''Acme Corp'', jobNos = ''-'',
               advanceTotal = ''-'', paymentTerms = ''-'', invoiceDate = ''-'',
               grandTotal = ''-'', fileCount = 3, ids = [''a'', ''b'', ''c'']\<rparr>]"
    by (simp add: acmeStore_def grouping_eval string_eval)
  show ?thesis
    using groups_by_normalized_customer [OF h] h ev unfolding list_all_iff by blast
qed

text \<open>The customer values are the empty string and two spaces: the second is not
  replaced by \<^verbatim>\<open>Unknown\<close>, and the two items are in two rows.\<close>

theorem groups_by_normalized_customer_counterexample:
  "summaryRows blankStore {''a'', ''b''} [''Customer'']
     = Inr [\<lparr>key = ''unknown'', customerName = ''Unknown'', jobNos = ''-'', advanceTotal = ''-'',
             paymentTerms = ''-'', invoiceDate = ''-'', grandTotal = ''-'', fileCount = 1,
             ids = [''a'']\<rparr>,
            \<lparr>key = [], customerName = ''  '', jobNos = ''-'', advanceTotal = ''-'',
             paymentTerms = ''-'', invoiceDate = ''-'', grandTotal = ''-'', fileCount = 1,
             ids = [''b'']\<rparr>]"
  by (simp add: blankStore_def grouping_eval string_eval)

text \<open>The case the theorem leaves out: when the key of a selected item names a member of
  \<^verbatim>\<open>Object.prototype\<close> (the keys \<^verbatim>\<open>constructor\<close> and \<^verbatim>\<open>__proto__\<close> can arise),
  the scan throws.\<close>

lemma forEach_append:
  "forEach ro G (xs @ ys)
     = (case forEach ro G xs of Inl e \<Rightarrow> Inl e | Inr G1 \<Rightarrow> forEach ro G1 ys)"
  by (induction xs arbitrary: G) (auto split: sum.splits)

lemma summaryRows_TypeError:
  assumes "\<exists>item \<in> set (selectedItems dat sel). inherited (normalizedKey item (customerField flds))"
  shows "summaryRows dat sel flds = Inl TypeError"
proof -
  let ?ro = "resolveRoles flds" and ?its = "selectedItems dat sel"
  let ?K = "\<lambda>item. normalizedKey item (customerField flds)"
  have cr: "customerRole ?ro = customerField flds"
    by (simp add: resolveRoles_def)
  from assms obtain pre x post where its: "?its = pre @ x # post"
    and bad: "inherited (?K x)" and good: "\<forall>item \<in> set pre. \<not> inherited (?K item)"
    using split_list_first_prop [of ?its "\<lambda>item. inherited (?K item)"] by blast
  from good obtain G where run: "forEach ?ro [] pre = Inr G"
    and keys: "fst ` set G = ?K ` set pre"
    using forEach_groups [of pre ?ro] unfolding cr by blast
  have "?K x \<notin> fst ` set G"
    unfolding keys using bad good by auto
  then have "getProp G (?K x) = None"
    by (simp add: getProp_def map_of_eq_None_iff)
  then have "addItem ?ro G x = Inl TypeError"
    using bad by (simp add: addItem_def Let_def cr)
  then have "forEach ?ro [] ?its = Inl TypeError"
    unfolding its forEach_append run by simp
  moreover have "?its \<noteq> []"
    using its by simp
  ultimately show ?thesis
    by (simp add: summaryRows_def)
qed

text \<open>
  C4.  The groups are the properties of a plain object, which enumerates the keys that
  are array indices first, in numeric order.  The scan meets the key \<^verbatim>\<open>zeta\<close> before
  the key \<^verbatim>\<open>42\<close>, and the row of \<^verbatim>\<open>42\<close> comes first.
\<close>

theorem index_keys_come_first:
  "map id' (selectedItems numberedStore {''a'', ''b''}) = [''a'', ''b'']
   \<and> map (\<lambda>item. normalizedKey item (customerField [''Customer'']))
         (selectedItems numberedStore {''a'', ''b''}) = [''zeta'', ''42'']
   \<and> summaryRows numberedStore {''a'', ''b''} [''Customer'']
     = Inr [\<lparr>key = ''42'', customerName = ''42'', jobNos = ''-'', advanceTotal = ''-'',
             paymentTerms = ''-'', invoiceDate = ''-'', grandTotal = ''-'', fileCount = 1,
             ids = [''b'']\<rparr>,
            \<lparr>key = ''zeta'', customerName = ''Zeta'', jobNos = ''-'', advanceTotal = ''-'',
             paymentTerms = ''-'', invoiceDate = ''-'', grandTotal = ''-'', fileCount = 1,
             ids = [''a'']\<rparr>]"
  by (simp add: numberedStore_def grouping_eval string_eval)

text \<open>When no key is an array index the rows are in the order in which the scan first
  meets their keys.\<close>

lemma firstSeen_snoc:
  "firstSeen (ks @ [k]) = (if k \<in> set ks then firstSeen ks else firstSeen ks @ [k])"
  by (simp add: firstSeen_def)

lemma addItem_keys:
  assumes "addItem ro G x = Inr G'" and "\<not> isArrayIndex (normalizedKey x (customerRole ro))"
  shows "map fst G' = (if normalizedKey x (customerRole ro) \<in> set (map fst G) then map fst G
                       else map fst G @ [normalizedKey x (customerRole ro)])"
proof (cases "getProp G (normalizedKey x (customerRole ro))")
  case None
  let ?k = "normalizedKey x (customerRole ro)"
  have nk: "?k \<notin> fst ` set G"
    using None by (simp add: getProp_def map_of_eq_None_iff)
  have G': "G' = setProp (setProp G ?k (newGroup (customerText x (customerRole ro)))) ?k
                   (addMember ro x (newGroup (customerText x (customerRole ro))))"
    using assms(1) None by (simp add: addItem_def Let_def split: if_splits)
  have inner: "setProp G ?k (newGroup (customerText x (customerRole ro)))
                 = G @ [(?k, newGroup (customerText x (customerRole ro)))]"
    using nk assms(2) by (simp add: setProp_def)
  show ?thesis
    unfolding G' inner using nk by (simp add: setProp_def keys_replaceProp)
next
  case (Some g)
  let ?k = "normalizedKey x (customerRole ro)"
  have k: "?k \<in> fst ` set G"
    using Some by (metis getProp_def map_of_eq_None_iff option.distinct(1))
  have G': "G' = setProp G ?k (addMember ro x g)"
    using assms(1) Some by (simp add: addItem_def Let_def)
  show ?thesis
    unfolding G' using k by (simp add: setProp_def keys_replaceProp)
qed

lemma forEach_keys_plain:
  "forEach ro [] its = Inr G \<Longrightarrow>
   \<forall>item \<in> set its. \<not> isArrayIndex (normalizedKey item (customerRole ro)) \<Longrightarrow>
   map fst G = firstSeen (map (\<lambda>item. normalizedKey item (customerRole ro)) its)"
proof (induction its arbitrary: G rule: rev_induct)
  case Nil
  then show ?case by (simp add: firstSeen_def)
next
  case (snoc x its)
  from snoc.prems(1) obtain G0 where run: "forEach ro [] its = Inr G0"
    and add: "addItem ro G0 x = Inr G"
    unfolding forEach_snoc by (auto split: sum.splits)
  have ih: "map fst G0 = firstSeen (map (\<lambda>item. normalizedKey item (customerRole ro)) its)"
    using snoc.IH [OF run] snoc.prems(2) by simp
  have set0: "set (map fst G0) = (\<lambda>item. normalizedKey item (customerRole ro)) ` set its"
    unfolding ih by (simp add: firstSeen_def)
  have plain: "\<not> isArrayIndex (normalizedKey x (customerRole ro))"
    using snoc.prems(2) by simp
  show ?case
    unfolding addItem_keys [OF add plain] set0 by (simp add: firstSeen_snoc ih)
qed

lemma rows_in_first_seen_order:
  assumes "summaryRows dat sel flds = Inr rows"
    and "\<forall>item \<in> set (selectedItems dat sel).
           \<not> isArrayIndex (normalizedKey item (customerField flds))"
  shows "map key rows
         = firstSeen (map (\<lambda>item. normalizedKey item (customerField flds)) (selectedItems dat sel))"
proof (cases "selectedItems dat sel = []")
  case True
  then show ?thesis
    using assms(1) by (auto simp: summaryRows_def firstSeen_def)
next
  case False
  have cr: "customerRole (resolveRoles flds) = customerField flds"
    by (simp add: resolveRoles_def)
  from assms(1) False obtain G where run: "forEach (resolveRoles flds) [] (selectedItems dat sel) = Inr G"
    and rows: "rows = map toRow G"
    by (auto simp: summaryRows_def split: sum.splits)
  have "map key rows = map fst G"
    by (simp add: rows toRow_def split_beta)
  then show ?thesis
    using forEach_keys_plain [OF run] assms(2) unfolding cr by simp
qed

end
